theory Spec2Isabelle
  imports Complex_Main "HOL-Library.Word"
begin

section \<open>JavaScript values as the offline store sees them\<close>

text \<open>
  The offline basemap cache keeps one entry in IndexedDB under a fixed key. What comes
  back from the store is an arbitrary structured-clone value, so the values are modelled
  with their run-time shape rather than with the TypeScript annotation. Numbers that the
  code only counts with (bytes, chunks, HTTP status) are naturals.
\<close>

type_synonym byte = "8 word"

datatype blob = Blob (blob_bytes: "byte list") (blob_type: string)

definition blob_size :: "blob \<Rightarrow> nat" where
  "blob_size b = length (blob_bytes b)"

datatype js_value =
    JUndefined
  | JNull
  | JBool bool
  | JNum int
  | JNaN
  | JStr string
  | JBlob blob
  | JObj "(string \<times> js_value) list"

datatype js_error = JsError (err_name: string) (err_message: string)

text \<open>\<open>!value\<close> is the negation of JavaScript truthiness.\<close>

fun truthy :: "js_value \<Rightarrow> bool" where
  "truthy JUndefined = False"
| "truthy JNull = False"
| "truthy (JBool b) = b"
| "truthy (JNum n) = (n \<noteq> 0)"
| "truthy JNaN = False"
| "truthy (JStr s) = (s \<noteq> [])"
| "truthy (JBlob b) = True"
| "truthy (JObj fs) = True"

fun js_typeof :: "js_value \<Rightarrow> string" where
  "js_typeof JUndefined = ''undefined''"
| "js_typeof JNull = ''object''"
| "js_typeof (JBool b) = ''boolean''"
| "js_typeof (JNum n) = ''number''"
| "js_typeof JNaN = ''number''"
| "js_typeof (JStr s) = ''string''"
| "js_typeof (JBlob b) = ''object''"
| "js_typeof (JObj fs) = ''object''"

fun instanceof_Blob :: "js_value \<Rightarrow> bool" where
  "instanceof_Blob (JBlob b) = True"
| "instanceof_Blob v = False"

definition type_error :: js_error where
  "type_error = JsError ''TypeError'' ''operand is not an object''"

text \<open>
  \<open>"blob" in value\<close> throws a TypeError when the right operand is a primitive; a Blob has
  no property of that name.
\<close>

fun blob_in :: "js_value \<Rightarrow> js_error + bool" where
  "blob_in (JObj fs) = Inr (map_of fs ''blob'' \<noteq> None)"
| "blob_in (JBlob b) = Inr False"
| "blob_in v = Inl type_error"

text \<open>
  Reading a property: a missing property reads as \<open>undefined\<close>, reading from
  \<open>undefined\<close> or \<open>null\<close> throws.
\<close>

fun js_get :: "js_value \<Rightarrow> string \<Rightarrow> js_error + js_value" where
  "js_get (JObj fs) k = Inr (case map_of fs k of None \<Rightarrow> JUndefined | Some v \<Rightarrow> v)"
| "js_get JUndefined k = Inl type_error"
| "js_get JNull k = Inl type_error"
| "js_get v k = Inr JUndefined"

section \<open>storage.ts: the IndexedDB slot\<close>

type_synonym idb = "string \<rightharpoonup> js_value"

definition PM_TILES_CACHE_KEY :: string where
  "PM_TILES_CACHE_KEY = ''sord-field-kit:pmtiles''"

text \<open>idb-keyval: \<open>get\<close> of a key that is not there gives \<open>undefined\<close>.\<close>

definition idb_get :: "idb \<Rightarrow> string \<Rightarrow> js_value" where
  "idb_get db k = (case db k of None \<Rightarrow> JUndefined | Some v \<Rightarrow> v)"

definition idb_set :: "idb \<Rightarrow> string \<Rightarrow> js_value \<Rightarrow> idb" where
  "idb_set db k v = db(k \<mapsto> v)"

definition idb_del :: "idb \<Rightarrow> string \<Rightarrow> idb" where
  "idb_del db k = db(k := None)"

text \<open>
  \<open>PMTilesCacheRecord\<close>: \<open>sourceUrl\<close> is whatever the stored object carried
  (\<open>JUndefined\<close> when the property is absent).
\<close>

record PMTilesCacheRecord =
  blob :: blob
  sourceUrl :: js_value

definition url_value :: "string option \<Rightarrow> js_value" where
  "url_value u = (case u of None \<Rightarrow> JUndefined | Some s \<Rightarrow> JStr s)"

definition savePMTilesBlob :: "blob \<Rightarrow> string option \<Rightarrow> idb \<Rightarrow> idb" where
  "savePMTilesBlob b src db =
     idb_set db PM_TILES_CACHE_KEY (JObj [(''blob'', JBlob b), (''sourceUrl'', url_value src)])"

definition readPMTilesBlob :: "idb \<Rightarrow> js_error + PMTilesCacheRecord option" where
  "readPMTilesBlob db =
     (let v = idb_get db PM_TILES_CACHE_KEY in
      if \<not> truthy v then Inr None
      else case v of
        JBlob b \<Rightarrow> Inr (Some \<lparr>blob = b, sourceUrl = JUndefined\<rparr>)
      | _ \<Rightarrow>
        if js_typeof v = ''object'' \<and> v \<noteq> JNull then
          (case blob_in v of
             Inl e \<Rightarrow> Inl e
           | Inr False \<Rightarrow> Inr None
           | Inr True \<Rightarrow>
               (case js_get v ''blob'' of
                  Inl e \<Rightarrow> Inl e
                | Inr (JBlob b) \<Rightarrow>
                    (case js_get v ''sourceUrl'' of
                       Inl e \<Rightarrow> Inl e
                     | Inr u \<Rightarrow> Inr (Some \<lparr>blob = b, sourceUrl = u\<rparr>))
                | Inr _ \<Rightarrow> Inr None))
        else Inr None)"

definition clearPMTilesBlob :: "idb \<Rightarrow> idb" where
  "clearPMTilesBlob db = idb_del db PM_TILES_CACHE_KEY"

section \<open>Strings\<close>

text \<open>Template literals print a number in decimal.\<close>

definition digit_char :: "nat \<Rightarrow> char" where
  "digit_char d = ''0123456789'' ! d"

function show_nat :: "nat \<Rightarrow> string" where
  "show_nat n = (if n < 10 then [digit_char n] else show_nat (n div 10) @ [digit_char (n mod 10)])"
  by pat_completeness auto
termination
  by (relation "measure id") auto

declare show_nat.simps [simp del]

text \<open>\<open>String.prototype.startsWith\<close> and \<open>String.prototype.includes\<close>.\<close>

fun startsWith :: "string \<Rightarrow> string \<Rightarrow> bool" where
  "startsWith s [] = True"
| "startsWith [] (n # ns) = False"
| "startsWith (c # cs) (n # ns) = (c = n \<and> startsWith cs ns)"

fun str_includes :: "string \<Rightarrow> string \<Rightarrow> bool" where
  "str_includes [] n = (n = [])"
| "str_includes (c # cs) n = (startsWith (c # cs) n \<or> str_includes cs n)"

text \<open>
  A string is the UTF-8 encoding of the JavaScript string: a character of ASCII is one
  byte below 0x80, every other character is a sequence of bytes from 0x80 upwards.
\<close>

definition is_ascii :: "char \<Rightarrow> bool" where
  "is_ascii c = (\<not> digit7 c)"

text \<open>
  \<open>toLowerCase\<close>. In text that is ASCII throughout it lowers the letters A to Z and
  leaves every other character. What it makes of text with other characters is decided
  by the Unicode case mapping of the JavaScript engine, whose tables are no part of this
  repository: that mapping is the parameter \<open>uni\<close>.
\<close>

definition lower_char :: "char \<Rightarrow> char" where
  "lower_char c =
     (case map_of (zip ''ABCDEFGHIJKLMNOPQRSTUVWXYZ'' ''abcdefghijklmnopqrstuvwxyz'') c of
        Some l \<Rightarrow> l
      | None \<Rightarrow> c)"

definition toLowerCase :: "(string \<Rightarrow> string) \<Rightarrow> string \<Rightarrow> string" where
  "toLowerCase uni s = (if list_all is_ascii s then map lower_char s else uni s)"

text \<open>
  \<open>trim\<close> strips the white space and line terminator characters of ECMAScript at both
  ends: U+0009 to U+000D, U+0020, U+00A0, U+1680, U+2000 to U+200A, U+2028, U+2029,
  U+202F, U+205F, U+3000 and U+FEFF, here in their encodings. \<open>strip ws\<close> removes
  members of \<open>ws\<close> from the front for as long as there is one.
\<close>

definition white_space :: "string list" where
  "white_space =
     [[CHR 0x09], [CHR 0x0A], [CHR 0x0B], [CHR 0x0C], [CHR 0x0D], [CHR 0x20],
      [CHR 0xC2, CHR 0xA0],
      [CHR 0xE1, CHR 0x9A, CHR 0x80],
      [CHR 0xE2, CHR 0x80, CHR 0x80], [CHR 0xE2, CHR 0x80, CHR 0x81],
      [CHR 0xE2, CHR 0x80, CHR 0x82], [CHR 0xE2, CHR 0x80, CHR 0x83],
      [CHR 0xE2, CHR 0x80, CHR 0x84], [CHR 0xE2, CHR 0x80, CHR 0x85],
      [CHR 0xE2, CHR 0x80, CHR 0x86], [CHR 0xE2, CHR 0x80, CHR 0x87],
      [CHR 0xE2, CHR 0x80, CHR 0x88], [CHR 0xE2, CHR 0x80, CHR 0x89],
      [CHR 0xE2, CHR 0x80, CHR 0x8A],
      [CHR 0xE2, CHR 0x80, CHR 0xA8], [CHR 0xE2, CHR 0x80, CHR 0xA9],
      [CHR 0xE2, CHR 0x80, CHR 0xAF],
      [CHR 0xE2, CHR 0x81, CHR 0x9F],
      [CHR 0xE3, CHR 0x80, CHR 0x80],
      [CHR 0xEF, CHR 0xBB, CHR 0xBF]]"

function strip :: "string list \<Rightarrow> string \<Rightarrow> string" where
  "strip ws s =
     (case find (\<lambda>w. w \<noteq> [] \<and> startsWith s w) ws of
        None \<Rightarrow> s
      | Some w \<Rightarrow> strip ws (drop (length w) s))"
  by pat_completeness auto
termination
proof (relation "measure (\<lambda>p. length (snd p))")
  show "wf (measure (\<lambda>p. length (snd p)))" by simp
next
  fix ws :: "string list" and s w :: string
  assume "find (\<lambda>w. w \<noteq> [] \<and> startsWith s w) ws = Some w"
  then have "w \<noteq> []" and "startsWith s w"
    by (auto simp: find_Some_iff)
  moreover have "length b \<le> length a" if "startsWith a b" for a b
    using that by (induction a b rule: startsWith.induct) auto
  ultimately have "0 < length w" and "length w \<le> length s"
    by auto
  then have "length s - length w < length s"
    by linarith
  then show "((ws, drop (length w) s), (ws, s)) \<in> measure (\<lambda>p. length (snd p))"
    by simp
qed

declare strip.simps [simp del]

definition trim :: "string \<Rightarrow> string" where
  "trim s = rev (strip (map rev white_space) (rev (strip white_space s)))"

text \<open>
  Text that is blank: nothing but white space characters, one after the other. No
  encoding in a list that is \<open>prefix_free\<close> begins with another one of the list.
\<close>

inductive made_of :: "string list \<Rightarrow> string \<Rightarrow> bool" for ws :: "string list" where
  made_of_Nil: "made_of ws []"
| made_of_Cons: "w \<in> set ws \<Longrightarrow> made_of ws s \<Longrightarrow> made_of ws (w @ s)"

definition blank :: "string \<Rightarrow> bool" where
  "blank s = made_of white_space s"

definition prefix_free :: "string list \<Rightarrow> bool" where
  "prefix_free ws = list_all (\<lambda>a. a \<noteq> [] \<and> list_all (\<lambda>b. startsWith a b \<longrightarrow> a = b) ws) ws"

section \<open>useOffline: the offline cache manager\<close>

datatype OfflinePhase = Idle | Downloading | Paused | Ready | Error

record OfflineStatus =
  phase :: OfflinePhase
  storedChunks :: nat
  totalChunks :: nat
  bytesStored :: nat
  totalBytes :: "nat option"
  error :: "string option"

definition CHUNK_SIZE :: nat where
  "CHUNK_SIZE = 64 * 1024"

text \<open>\<open>Math.ceil(n / CHUNK_SIZE)\<close> for a byte count \<open>n\<close>.\<close>

definition ceil_chunks :: "nat \<Rightarrow> nat" where
  "ceil_chunks n = (n + (CHUNK_SIZE - 1)) div CHUNK_SIZE"

text \<open>\<open>a || b\<close> on numbers: zero is falsy.\<close>

definition num_or :: "nat \<Rightarrow> nat \<Rightarrow> nat" where
  "num_or a b = (if a = 0 then b else a)"

subsection \<open>The platform: abort controllers, fetch, the body stream\<close>

text \<open>
  A promise settles with a value or with a thrown error. A response has a status (\<open>ok\<close>
  is the range 200 to 299), possibly a body, and possibly a Content-Length header, which
  HTTP makes a decimal number. Each \<open>reader.read()\<close> gives a chunk, a result without a
  value, or the end of the stream.
\<close>

datatype 'a settled = Resolved 'a | Rejected js_error

record response =
  resp_status :: nat
  resp_body :: bool
  content_length :: "nat option"

definition response_ok :: "response \<Rightarrow> bool" where
  "response_ok r = (200 \<le> resp_status r \<and> resp_status r \<le> 299)"

datatype read_result = ReadValue "byte list" | ReadNoValue | ReadDone

datatype event =
    FetchSettles "response settled"
  | ReadSettles "read_result settled"
  | SaveSettles "unit settled"

text \<open>
  The locals of one \<open>startCaching\<close> call, kept across its awaits (\<open>total\<close> and
  \<open>stored\<close> are its \<open>totalBytes\<close> and \<open>storedChunks\<close>).
\<close>

record transfer =
  total :: "nat option"
  estimatedChunks :: nat
  chunks :: "byte list list"
  receivedBytes :: nat
  stored :: nat

datatype stage = AwaitFetch | AwaitRead transfer | AwaitSave transfer blob

record run =
  ctrl :: nat
  url :: string
  stage :: stage

text \<open>
  The hook's state (\<open>useState\<close> cells and refs) together with what it shares with its
  surroundings: the abort controllers created so far (a controller is its index, the
  entry is its signal's \<open>aborted\<close> flag), the IndexedDB store, and the log of fetches
  issued (URL and controller of the signal).
\<close>

record hook =
  enabled :: bool
  offlineBlob :: "blob option"
  cachedSourceUrl :: "string option"
  hasCache :: bool
  status :: OfflineStatus
  controllerRef :: "nat option"
  activeUrlRef :: "string option"
  controllers :: "bool list"
  db :: idb
  requests :: "(string \<times> nat) list"

definition abort :: "nat \<Rightarrow> hook \<Rightarrow> hook" where
  "abort c h = h\<lparr>controllers := (controllers h)[c := True]\<rparr>"

definition signal_aborted :: "hook \<Rightarrow> nat \<Rightarrow> bool" where
  "signal_aborted h c = (c < length (controllers h) \<and> controllers h ! c)"

definition abort_error :: js_error where
  "abort_error = JsError ''AbortError'' ''The operation was aborted.''"

text \<open>
  A fetch, or a read of its body, whose signal is aborted rejects with a DOMException
  named AbortError whatever the network would have delivered.
\<close>

definition deliver :: "hook \<Rightarrow> nat \<Rightarrow> 'a settled \<Rightarrow> 'a settled" where
  "deliver h c outcome = (if signal_aborted h c then Rejected abort_error else outcome)"

subsection \<open>startCaching\<close>

definition resetController :: "hook \<Rightarrow> hook" where
  "resetController h =
     (case controllerRef h of
        Some c \<Rightarrow> (abort c h)\<lparr>controllerRef := None\<rparr>
      | None \<Rightarrow> h)"

definition no_source :: "hook \<Rightarrow> hook" where
  "no_source h = h\<lparr>status := (status h)\<lparr>phase := Error, error := Some ''No PMTiles source available''\<rparr>\<rparr>"

definition downloading0 :: OfflineStatus where
  "downloading0 = \<lparr>phase = Downloading, storedChunks = 0, totalChunks = 0, bytesStored = 0,
                    totalBytes = None, error = None\<rparr>"

text \<open>
  The synchronous prefix of \<open>startCaching\<close>, up to the first await. The second component
  is the suspended call, if there is one.
\<close>

definition startCaching :: "string option \<Rightarrow> hook \<Rightarrow> hook \<times> run option" where
  "startCaching pmtilesUrl h =
     (case pmtilesUrl of
        None \<Rightarrow> (no_source h, None)
      | Some u \<Rightarrow>
          if u = [] then (no_source h, None)
          else
            let h1 = (case controllerRef h of Some c \<Rightarrow> abort c h | None \<Rightarrow> h);
                c = length (controllers h1);
                h2 = h1\<lparr>controllers := controllers h1 @ [False],
                        controllerRef := Some c,
                        activeUrlRef := Some u,
                        cachedSourceUrl := Some u,
                        status := downloading0,
                        requests := requests h1 @ [(u, c)]\<rparr>
            in (h2, Some \<lparr>ctrl = c, url = u, stage = AwaitFetch\<rparr>))"

text \<open>The \<open>catch\<close> block followed by \<open>finally\<close>.\<close>

definition on_throw :: "js_error \<Rightarrow> hook \<Rightarrow> hook" where
  "on_throw e h =
     (let h1 = (if err_name e = ''AbortError''
                then h\<lparr>status := (status h)\<lparr>phase := Paused\<rparr>\<rparr>
                else h\<lparr>status := (status h)\<lparr>phase := Error, error := Some (err_message e)\<rparr>\<rparr>)
      in h1\<lparr>controllerRef := None\<rparr>)"

definition download_error :: "nat \<Rightarrow> js_error" where
  "download_error st = JsError ''Error'' (''Unable to download tiles ('' @ show_nat st @ '')'')"

text \<open>
  \<open>Number(headers.get("content-length") ?? "0") || undefined\<close>: an absent header and a
  length of zero both leave the total unknown.
\<close>

definition totalBytes_of :: "response \<Rightarrow> nat option" where
  "totalBytes_of r =
     (case content_length r of
        None \<Rightarrow> None
      | Some n \<Rightarrow> if n = 0 then None else Some n)"

definition fetch_settled :: "run \<Rightarrow> response settled \<Rightarrow> hook \<Rightarrow> hook \<times> run option" where
  "fetch_settled r outcome h =
     (case deliver h (ctrl r) outcome of
        Rejected e \<Rightarrow> (on_throw e h, None)
      | Resolved resp \<Rightarrow>
          if \<not> response_ok resp \<or> \<not> resp_body resp
          then (on_throw (download_error (resp_status resp)) h, None)
          else
            let tb = totalBytes_of resp;
                est = (case tb of Some n \<Rightarrow> ceil_chunks n | None \<Rightarrow> 0)
            in (h, Some (r\<lparr>stage := AwaitRead \<lparr>total = tb, estimatedChunks = est, chunks = [],
                                                receivedBytes = 0, stored = 0\<rparr>\<rparr>)))"

definition on_chunk :: "byte list \<Rightarrow> transfer \<Rightarrow> transfer" where
  "on_chunk v t =
     t\<lparr>chunks := chunks t @ [v],
       receivedBytes := receivedBytes t + length v,
       stored := stored t + max 1 (ceil_chunks (length v))\<rparr>"

definition progress_status :: "transfer \<Rightarrow> OfflineStatus" where
  "progress_status t =
     \<lparr>phase = Downloading, storedChunks = stored t,
      totalChunks = num_or (estimatedChunks t) (stored t),
      bytesStored = receivedBytes t, totalBytes = total t, error = None\<rparr>"

definition assemble :: "transfer \<Rightarrow> blob" where
  "assemble t = Blob (concat (chunks t)) ''application/octet-stream''"

definition read_settled ::
  "run \<Rightarrow> transfer \<Rightarrow> read_result settled \<Rightarrow> hook \<Rightarrow> hook \<times> run option" where
  "read_settled r t outcome h =
     (case deliver h (ctrl r) outcome of
        Rejected e \<Rightarrow> (on_throw e h, None)
      | Resolved ReadDone \<Rightarrow> (h, Some (r\<lparr>stage := AwaitSave t (assemble t)\<rparr>))
      | Resolved ReadNoValue \<Rightarrow> (h, Some r)
      | Resolved (ReadValue v) \<Rightarrow>
          let t' = on_chunk v t
          in (h\<lparr>status := progress_status t'\<rparr>, Some (r\<lparr>stage := AwaitRead t'\<rparr>)))"

definition ready_status :: "transfer \<Rightarrow> blob \<Rightarrow> OfflineStatus" where
  "ready_status t b =
     (let finalChunks = num_or (num_or (estimatedChunks t) (stored t)) 1
      in \<lparr>phase = Ready, storedChunks = finalChunks, totalChunks = finalChunks,
          bytesStored = num_or (receivedBytes t) (blob_size b),
          totalBytes = Some (case total t of Some n \<Rightarrow> n | None \<Rightarrow> blob_size b),
          error = None\<rparr>)"

text \<open>The store is written when \<open>savePMTilesBlob\<close> resolves; a rejected write leaves it.\<close>

definition save_settled ::
  "run \<Rightarrow> transfer \<Rightarrow> blob \<Rightarrow> unit settled \<Rightarrow> hook \<Rightarrow> hook \<times> run option" where
  "save_settled r t b outcome h =
     (case outcome of
        Rejected e \<Rightarrow> (on_throw e h, None)
      | Resolved _ \<Rightarrow>
          (h\<lparr>db := savePMTilesBlob b (Some (url r)) (db h),
             offlineBlob := Some b,
             hasCache := True,
             cachedSourceUrl := Some (url r),
             status := ready_status t b,
             controllerRef := None\<rparr>, None))"

text \<open>
  One continuation of a suspended call. An event that is not the one the call waits for
  leaves everything as it is.
\<close>

fun resume :: "run \<Rightarrow> event \<Rightarrow> hook \<Rightarrow> hook \<times> run option" where
  "resume r (FetchSettles outcome) h =
     (case stage r of AwaitFetch \<Rightarrow> fetch_settled r outcome h | _ \<Rightarrow> (h, Some r))"
| "resume r (ReadSettles outcome) h =
     (case stage r of AwaitRead t \<Rightarrow> read_settled r t outcome h | _ \<Rightarrow> (h, Some r))"
| "resume r (SaveSettles outcome) h =
     (case stage r of AwaitSave t b \<Rightarrow> save_settled r t b outcome h | _ \<Rightarrow> (h, Some r))"

text \<open>
  A call driven by the events that reach it, with nothing else running in between. The
  call has ended when no suspended call is left.
\<close>

fun drive :: "hook \<times> run option \<Rightarrow> event list \<Rightarrow> hook \<times> run option" where
  "drive (h, None) es = (h, None)"
| "drive (h, Some r) [] = (h, Some r)"
| "drive (h, Some r) (e # es) = drive (resume r e h) es"

subsection \<open>pause, resume, clear, and the enable effect\<close>

definition pauseCaching :: "hook \<Rightarrow> hook" where
  "pauseCaching h = (case controllerRef h of Some c \<Rightarrow> abort c h | None \<Rightarrow> h)"

definition url_truthy :: "string option \<Rightarrow> bool" where
  "url_truthy u = (case u of None \<Rightarrow> False | Some s \<Rightarrow> s \<noteq> [])"

definition resumeCaching :: "string option \<Rightarrow> hook \<Rightarrow> hook \<times> run option" where
  "resumeCaching pmtilesUrl h =
     (if \<not> url_truthy pmtilesUrl then (h, None) else startCaching pmtilesUrl h)"

definition idle0 :: OfflineStatus where
  "idle0 = \<lparr>phase = Idle, storedChunks = 0, totalChunks = 0, bytesStored = 0,
             totalBytes = None, error = None\<rparr>"

text \<open>\<open>clearCache\<close> before and after its await of \<open>clearPMTilesBlob\<close>.\<close>

definition clearCache_begin :: "hook \<Rightarrow> hook" where
  "clearCache_begin h = resetController h"

definition clearCache_finish :: "hook \<Rightarrow> hook" where
  "clearCache_finish h =
     h\<lparr>db := clearPMTilesBlob (db h),
       offlineBlob := None,
       cachedSourceUrl := None,
       hasCache := False,
       status := idle0\<rparr>"

definition clearCache :: "hook \<Rightarrow> hook" where
  "clearCache h = clearCache_finish (clearCache_begin h)"

text \<open>The effect that depends on \<open>enabled\<close>, \<open>pmtilesUrl\<close>, \<open>hasCache\<close> and \<open>startCaching\<close>.\<close>

definition enable_effect :: "string option \<Rightarrow> hook \<Rightarrow> hook \<times> run option" where
  "enable_effect pmtilesUrl h =
     (if \<not> enabled h then
        (let h1 = resetController h
         in (h1\<lparr>status := (status h1)\<lparr>phase := (if hasCache h then Ready else Idle)\<rparr>\<rparr>, None))
      else if url_truthy pmtilesUrl then startCaching pmtilesUrl h
      else (h, None))"



text \<open>\<open>setEnabled v\<close> and the effect run of the render that follows.\<close>

definition setEnabled :: "bool \<Rightarrow> string option \<Rightarrow> hook \<Rightarrow> hook \<times> run option" where
  "setEnabled v pmtilesUrl h = enable_effect pmtilesUrl (h\<lparr>enabled := v\<rparr>)"

text \<open>
  Unmounting runs the cleanups that the hook's effects returned. Only the mount effect
  returns one, and it sets a flag local to that effect: no cleanup touches the controller
  or any other part of this state. (React drops later updates to the state cells of an
  unmounted component; the refs, the network and the store are not affected by that.)
\<close>

definition unmount :: "hook \<Rightarrow> hook" where
  "unmount h = h"

text \<open>
  The hook at mount: the stored preference decides \<open>enabled\<close>, nothing is cached in memory
  yet, and the store is whatever earlier sessions left.
\<close>

definition initial_hook :: "bool \<Rightarrow> idb \<Rightarrow> hook" where
  "initial_hook pref store =
     \<lparr>enabled = pref, offlineBlob = None, cachedSourceUrl = None, hasCache = False,
      status = idle0, controllerRef = None, activeUrlRef = None, controllers = [],
      db = store, requests = []\<rparr>"

text \<open>
  The mount effect: read the store and, when an archive is there, show it as ready. A
  \<open>sourceUrl\<close> that is not a string is kept out of the typed state.
\<close>

definition url_of_value :: "js_value \<Rightarrow> string option" where
  "url_of_value v = (case v of JStr s \<Rightarrow> Some s | _ \<Rightarrow> None)"

definition load_effect :: "hook \<Rightarrow> hook" where
  "load_effect h =
     (case readPMTilesBlob (db h) of
        Inl e \<Rightarrow> h
      | Inr None \<Rightarrow> h\<lparr>offlineBlob := None, cachedSourceUrl := None, hasCache := False\<rparr>
      | Inr (Some record) \<Rightarrow>
          let b = blob record;
              chunkEstimate = max 1 (ceil_chunks (blob_size b))
          in h\<lparr>offlineBlob := Some b,
               cachedSourceUrl := url_of_value (sourceUrl record),
               hasCache := True,
               status := \<lparr>phase = Ready, storedChunks = chunkEstimate, totalChunks = chunkEstimate,
                          bytesStored = blob_size b, totalBytes = Some (blob_size b),
                          error = None\<rparr>\<rparr>)"

subsection \<open>Notions for stating the properties\<close>

text \<open>
  What one read contributes: to the locals of the call, to the byte count, and to the
  chunk counter. \<open>awaits_request\<close> says that a suspended call waits for the network (the
  fetch or a read of the body) and that the event settles that await.
\<close>

fun feed :: "transfer \<Rightarrow> read_result \<Rightarrow> transfer" where
  "feed t (ReadValue v) = on_chunk v t"
| "feed t ReadNoValue = t"
| "feed t ReadDone = t"

fun bytes_of :: "read_result \<Rightarrow> nat" where
  "bytes_of (ReadValue v) = length v"
| "bytes_of ReadNoValue = 0"
| "bytes_of ReadDone = 0"

fun units_of :: "read_result \<Rightarrow> nat" where
  "units_of (ReadValue v) = max 1 (ceil_chunks (length v))"
| "units_of ReadNoValue = 0"
| "units_of ReadDone = 0"

fun is_value :: "read_result \<Rightarrow> bool" where
  "is_value (ReadValue v) = True"
| "is_value ReadNoValue = False"
| "is_value ReadDone = False"

definition awaits_request :: "run \<Rightarrow> event \<Rightarrow> bool" where
  "awaits_request r ev =
     (case ev of
        FetchSettles _ \<Rightarrow> (case stage r of AwaitFetch \<Rightarrow> True | _ \<Rightarrow> False)
      | ReadSettles _ \<Rightarrow> (case stage r of AwaitRead _ \<Rightarrow> True | _ \<Rightarrow> False)
      | SaveSettles _ \<Rightarrow> False)"

subsection \<open>Sample data\<close>

definition sample_url :: string where
  "sample_url = ''/tiles/basemap.pmtiles''"

definition sample_blob :: blob where
  "sample_blob = Blob [1, 2, 3] ''application/octet-stream''"

definition sample_store :: idb where
  "sample_store = savePMTilesBlob sample_blob (Some sample_url) Map.empty"

definition sample_response :: "nat \<Rightarrow> nat option \<Rightarrow> response" where
  "sample_response code len = \<lparr>resp_status = code, resp_body = True, content_length = len\<rparr>"

definition net_error :: js_error where
  "net_error = JsError ''TypeError'' ''Failed to fetch''"

definition sample_run :: run where
  "sample_run = \<lparr>ctrl = 0, url = sample_url, stage = AwaitFetch\<rparr>"

section \<open>pmtiles.ts: the tile source resolver\<close>

definition LOCAL_PM_TILES_PATH :: string where
  "LOCAL_PM_TILES_PATH = ''/tiles/basemap.pmtiles''"

definition REMOTE_PM_TILES_URL :: string where
  "REMOTE_PM_TILES_URL = ''https://pmtiles.io/protomaps(vector)ODbL_firenze.pmtiles''"

definition CACHE_ORIGIN_TAG :: string where
  "CACHE_ORIGIN_TAG = ''indexeddb://offline-basemap''"

text \<open>
  An archive is a \<open>PMTiles\<close> object over its source: a \<open>File\<close> wrapped in a
  \<open>FileSource\<close>, or a URL. The key of a source (\<open>source.getKey()\<close>) belongs to the
  pmtiles library and is a parameter of the resolver.
\<close>

datatype js_file = File (file_bytes: "byte list") (file_name: string) (file_type: string)

datatype archive_source = FileSource js_file | UrlSource string

datatype PMTiles = PMTiles (source: archive_source)

text \<open>
  The module-level state: the protocol object (the archives added to it), whether the
  handler was registered, and the protocols MapLibre knows.
\<close>

record pm_module =
  protocolInstance :: "PMTiles list option"
  protocolRegistered :: bool
  maplibre_protocols :: "string list"

definition ensureProtocol :: "pm_module \<Rightarrow> pm_module" where
  "ensureProtocol m =
     (let m1 = (if protocolInstance m = None then m\<lparr>protocolInstance := Some []\<rparr> else m)
      in if \<not> protocolRegistered m1
         then m1\<lparr>maplibre_protocols := maplibre_protocols m1 @ [''pmtiles''],
                 protocolRegistered := True\<rparr>
         else m1)"

definition protocol_add :: "PMTiles \<Rightarrow> pm_module \<Rightarrow> pm_module" where
  "protocol_add p m = m\<lparr>protocolInstance := map_option (\<lambda>ps. ps @ [p]) (protocolInstance m)\<rparr>"

text \<open>The HEAD probe of the bundled archive: a failed fetch counts as not found.\<close>

definition hasLocalPMTiles :: "response settled \<Rightarrow> bool" where
  "hasLocalPMTiles probe = (case probe of Resolved resp \<Rightarrow> response_ok resp | Rejected e \<Rightarrow> False)"

record BasemapInfo =
  info_sourceUrl :: string
  tileUrl :: string
  usedLocal :: bool
  usedOfflineCache :: bool

definition tile_handle :: "(archive_source \<Rightarrow> string) \<Rightarrow> PMTiles \<Rightarrow> string" where
  "tile_handle getKey p = ''pmtiles://'' @ getKey (source p)"

definition resolvePMTiles ::
  "(archive_source \<Rightarrow> string) \<Rightarrow> blob option \<Rightarrow> string option \<Rightarrow> response settled \<Rightarrow>
   pm_module \<Rightarrow> pm_module \<times> PMTiles \<times> BasemapInfo" where
  "resolvePMTiles getKey offline_blob offline_source_url probe m =
     (let m1 = ensureProtocol m in
      case offline_blob of
        Some b \<Rightarrow>
          let f = File (blob_bytes b) ''offline-basemap.pmtiles'' ''application/octet-stream'';
              pmtiles = PMTiles (FileSource f);
              m2 = protocol_add pmtiles m1;
              src = (case offline_source_url of
                       Some u \<Rightarrow> if u \<noteq> [] \<and> length (trim u) > 0 then u else CACHE_ORIGIN_TAG
                     | None \<Rightarrow> CACHE_ORIGIN_TAG);
              local = (src = LOCAL_PM_TILES_PATH \<or> startsWith src ''indexeddb://'')
          in (m2, pmtiles,
              \<lparr>info_sourceUrl = src, tileUrl = tile_handle getKey pmtiles,
               usedLocal = local, usedOfflineCache = True\<rparr>)
      | None \<Rightarrow>
          let useLocal = hasLocalPMTiles probe;
              src = (if useLocal then LOCAL_PM_TILES_PATH else REMOTE_PM_TILES_URL);
              pmtiles = PMTiles (UrlSource src);
              m2 = protocol_add pmtiles m1
          in (m2, pmtiles,
              \<lparr>info_sourceUrl = src, tileUrl = tile_handle getKey pmtiles,
               usedLocal = useLocal, usedOfflineCache = False\<rparr>))"

text \<open>
  The module as loaded, and the keys the pmtiles sources report: a file source answers
  with the name of its file, a URL source with its URL.
\<close>

definition initial_module :: pm_module where
  "initial_module = \<lparr>protocolInstance = None, protocolRegistered = False, maplibre_protocols = []\<rparr>"

definition sample_getKey :: "archive_source \<Rightarrow> string" where
  "sample_getKey s = (case s of FileSource f \<Rightarrow> file_name f | UrlSource u \<Rightarrow> u)"

section \<open>The map\<close>

text \<open>
  What the renderers use of a MapLibre map: its sources by id and its ordered style
  layers. Style values are strings, decimal numbers (\<open>SNum m e\<close> is \<open>m / 10^e\<close>) and
  expression arrays. The map reports a failed lookup through an error event and leaves
  its style alone; \<open>addSource\<close> of an id that is taken throws; a source still used by a
  layer is not removed.
\<close>

datatype style_value = SStr string | SNum int nat | SArr "style_value list"

record layer =
  layer_id :: string
  layer_type :: string
  layer_source :: "string option"
  source_layer :: "string option"
  paint :: "(string \<times> style_value) list"
  layout :: "(string \<times> style_value) list"
  minzoom :: "nat option"
  maxzoom :: "nat option"

record vector_source =
  source_url :: string
  attribution :: string

record map_state =
  sources :: "(string \<times> vector_source) list"
  layers :: "layer list"

text \<open>Assignment to a property of an object: in place when it exists, appended otherwise.\<close>

fun prop_set :: "string \<Rightarrow> 'v \<Rightarrow> (string \<times> 'v) list \<Rightarrow> (string \<times> 'v) list" where
  "prop_set k v [] = [(k, v)]"
| "prop_set k v (p # ps) = (if fst p = k then (k, v) # ps else p # prop_set k v ps)"

definition getLayer :: "map_state \<Rightarrow> string \<Rightarrow> layer option" where
  "getLayer m i = find (\<lambda>l. layer_id l = i) (layers m)"

definition removeLayer :: "map_state \<Rightarrow> string \<Rightarrow> map_state" where
  "removeLayer m i = m\<lparr>layers := filter (\<lambda>l. layer_id l \<noteq> i) (layers m)\<rparr>"

definition addLayer :: "map_state \<Rightarrow> layer \<Rightarrow> map_state" where
  "addLayer m l = (if getLayer m (layer_id l) \<noteq> None then m else m\<lparr>layers := layers m @ [l]\<rparr>)"

definition getSource :: "map_state \<Rightarrow> string \<Rightarrow> vector_source option" where
  "getSource m i = map_of (sources m) i"

definition removeSource :: "map_state \<Rightarrow> string \<Rightarrow> map_state" where
  "removeSource m i =
     (if list_ex (\<lambda>l. layer_source l = Some i) (layers m) then m
      else m\<lparr>sources := filter (\<lambda>p. fst p \<noteq> i) (sources m)\<rparr>)"

definition source_exists :: js_error where
  "source_exists = JsError ''Error'' ''Source already exists.''"

definition addSource :: "map_state \<Rightarrow> string \<Rightarrow> vector_source \<Rightarrow> js_error + map_state" where
  "addSource m i s =
     (if getSource m i \<noteq> None then Inl source_exists
      else Inr (m\<lparr>sources := sources m @ [(i, s)]\<rparr>))"

definition setPaintProperty :: "map_state \<Rightarrow> string \<Rightarrow> string \<Rightarrow> style_value \<Rightarrow> map_state" where
  "setPaintProperty m i p x =
     m\<lparr>layers := map (\<lambda>l. if layer_id l = i then l\<lparr>paint := prop_set p x (paint l)\<rparr> else l) (layers m)\<rparr>"

definition setLayoutProperty :: "map_state \<Rightarrow> string \<Rightarrow> string \<Rightarrow> style_value \<Rightarrow> map_state" where
  "setLayoutProperty m i p x =
     m\<lparr>layers := map (\<lambda>l. if layer_id l = i then l\<lparr>layout := prop_set p x (layout l)\<rparr> else l) (layers m)\<rparr>"

text \<open>The copyright sign of the attribution strings, in UTF-8.\<close>

definition copyright_sign :: string where
  "copyright_sign = [CHR 0xC2, CHR 0xA9]"

section \<open>src/components/MapView.tsx: the themed renderer\<close>

record Theme =
  th_name :: string
  th_background :: string
  th_land :: string
  th_water :: string
  th_roads :: string
  th_building :: string
  th_boundary :: string
  th_text :: string
  th_textHalo :: string

definition theme_dark :: Theme where
  "theme_dark = \<lparr>th_name = ''Dark Ops'', th_background = ''#030712'', th_land = ''#1b2a38'',
     th_water = ''#0f4470'', th_roads = ''#f3f6fb'', th_building = ''#c87a35'',
     th_boundary = ''#6c8195'', th_text = ''#f5f9ff'', th_textHalo = ''#0b101a''\<rparr>"

definition theme_muted :: Theme where
  "theme_muted = \<lparr>th_name = ''Muted Terrain'', th_background = ''#0c1014'', th_land = ''#253026'',
     th_water = ''#1c3f57'', th_roads = ''#f0e9da'', th_building = ''#d6c09a'',
     th_boundary = ''#7a8c7a'', th_text = ''#f0e9da'', th_textHalo = ''#1c1f23''\<rparr>"

definition theme_contrast :: Theme where
  "theme_contrast = \<lparr>th_name = ''High Contrast'', th_background = ''#010203'', th_land = ''#1c1c1c'',
     th_water = ''#0a2c5f'', th_roads = ''#ffffff'', th_building = ''#ff8800'',
     th_boundary = ''#ffcc00'', th_text = ''#ffffff'', th_textHalo = ''#000000''\<rparr>"

record LayerDescriptor =
  d_key :: string
  d_matches :: "string list"
  d_type :: string
  d_paint :: "Theme \<Rightarrow> (string \<times> style_value) list"
  d_layout :: "(Theme \<Rightarrow> (string \<times> style_value) list) option"
  d_minzoom :: "nat option"
  d_maxzoom :: "nat option"

definition zoom_ramp :: "style_value list \<Rightarrow> style_value" where
  "zoom_ramp stops = SArr ([SStr ''interpolate'', SArr [SStr ''linear''], SArr [SStr ''zoom'']] @ stops)"

definition LAYER_DESCRIPTORS :: "LayerDescriptor list" where
  "LAYER_DESCRIPTORS =
     [\<lparr>d_key = ''land'', d_matches = [''land'', ''earth'', ''park'', ''landuse'', ''landcover''],
       d_type = ''fill'',
       d_paint = (\<lambda>theme. [(''fill-color'', SStr (th_land theme)), (''fill-opacity'', SNum 65 2)]),
       d_layout = None, d_minzoom = None, d_maxzoom = None\<rparr>,
      \<lparr>d_key = ''water'', d_matches = [''water''],
       d_type = ''fill'',
       d_paint = (\<lambda>theme. [(''fill-color'', SStr (th_water theme)), (''fill-opacity'', SNum 75 2)]),
       d_layout = None, d_minzoom = None, d_maxzoom = None\<rparr>,
      \<lparr>d_key = ''roads'', d_matches = [''road'', ''transport'', ''transportation''],
       d_type = ''line'',
       d_paint = (\<lambda>theme. [(''line-color'', SStr (th_roads theme)),
                   (''line-width'', zoom_ramp [SNum 5 0, SNum 4 1, SNum 10 0, SNum 16 1,
                                               SNum 13 0, SNum 32 1, SNum 16 0, SNum 5 0]),
                   (''line-opacity'', SNum 85 2)]),
       d_layout = None, d_minzoom = None, d_maxzoom = None\<rparr>,
      \<lparr>d_key = ''buildings'', d_matches = [''building''],
       d_type = ''fill'',
       d_paint = (\<lambda>theme. [(''fill-color'', SStr (th_building theme)), (''fill-opacity'', SNum 6 1)]),
       d_layout = None, d_minzoom = Some 13, d_maxzoom = None\<rparr>,
      \<lparr>d_key = ''boundaries'', d_matches = [''boundary'', ''admin''],
       d_type = ''line'',
       d_paint = (\<lambda>theme. [(''line-color'', SStr (th_boundary theme)), (''line-width'', SNum 1 0),
                   (''line-dasharray'', SArr [SNum 4 0, SNum 3 0]), (''line-opacity'', SNum 5 1)]),
       d_layout = None, d_minzoom = Some 3, d_maxzoom = None\<rparr>,
      \<lparr>d_key = ''labels'', d_matches = [''label'', ''place''],
       d_type = ''symbol'',
       d_paint = (\<lambda>theme. [(''text-color'', SStr (th_text theme)),
                   (''text-halo-color'', SStr (th_textHalo theme)), (''text-halo-width'', SNum 12 1)]),
       d_layout = Some (\<lambda>theme.
                   [(''text-field'', SArr [SStr ''coalesce'', SArr [SStr ''get'', SStr ''name''],
                       SArr [SStr ''get'', SStr ''name_en''], SArr [SStr ''get'', SStr ''ref'']]),
                    (''text-size'', zoom_ramp [SNum 5 0, SNum 11 0, SNum 12 0, SNum 16 0]),
                    (''text-letter-spacing'', SNum 2 2),
                    (''symbol-placement'', SStr ''point'')]),
       d_minzoom = Some 4, d_maxzoom = None\<rparr>]"

text \<open>
  The component's refs and the state cells the install routine writes. The map handed to
  \<open>installBasemap\<close> is the one \<open>mapRef\<close> holds.
\<close>

record view =
  vmap :: map_state
  layerIdsRef :: "(string \<times> string) list"
  sourceUrlRef :: "string option"
  themeRef :: Theme
  enabledLayersRef :: "(string \<times> bool) list"
  protocolRef :: "PMTiles list option"
  availableLayers :: "string list"
  enabledLayers :: "(string \<times> bool) list"

definition paint_all :: "string \<Rightarrow> (string \<times> style_value) list \<Rightarrow> map_state \<Rightarrow> map_state" where
  "paint_all i ps m = foldl (\<lambda>m' (p, x). setPaintProperty m' i p x) m ps"

definition layout_all :: "string \<Rightarrow> (string \<times> style_value) list \<Rightarrow> map_state \<Rightarrow> map_state" where
  "layout_all i ps m =
     foldl (\<lambda>m' (p, x). if p = ''visibility'' then m' else setLayoutProperty m' i p x) m ps"

definition theme_role ::
  "Theme \<Rightarrow> (string \<times> string) list \<Rightarrow> map_state \<Rightarrow> LayerDescriptor \<Rightarrow> map_state" where
  "theme_role theme ids m d =
     (case map_of ids (d_key d) of
        None \<Rightarrow> m
      | Some layerId \<Rightarrow>
          if layerId = [] \<or> getLayer m layerId = None then m
          else
            let m1 = paint_all layerId (d_paint d theme) m
            in (case d_layout d of
                  None \<Rightarrow> m1
                | Some f \<Rightarrow> layout_all layerId (f theme) m1))"

definition applyTheme :: "view \<Rightarrow> view" where
  "applyTheme v =
     (let theme = themeRef v;
          m0 = vmap v;
          m1 = (if getLayer m0 ''background'' \<noteq> None
                then setPaintProperty m0 ''background'' ''background-color'' (SStr (th_background theme))
                else m0)
      in v\<lparr>vmap := foldl (theme_role theme (layerIdsRef v)) m1 LAYER_DESCRIPTORS\<rparr>)"

definition removeLayers :: "view \<Rightarrow> view" where
  "removeLayers v =
     (let m1 = foldl (\<lambda>m layerId. if getLayer m layerId \<noteq> None then removeLayer m layerId else m)
                 (vmap v) (map snd (layerIdsRef v));
          m2 = (if getSource m1 ''pm'' \<noteq> None then removeSource m1 ''pm'' else m1)
      in v\<lparr>vmap := m2, layerIdsRef := []\<rparr>)"

text \<open>
  The first metadata layer whose lower-cased name contains one of the needles; \<open>uni\<close> is
  the case mapping of the engine that \<open>toLowerCase\<close> runs on.
\<close>

definition find_source_layer ::
  "(string \<Rightarrow> string) \<Rightarrow> string list \<Rightarrow> string list \<Rightarrow> string option" where
  "find_source_layer uni needles names =
     find (\<lambda>c. list_ex (\<lambda>needle. str_includes (toLowerCase uni c) needle) needles) names"

definition visibility_of :: "bool \<Rightarrow> style_value" where
  "visibility_of b = SStr (if b then ''visible'' else ''none'')"

text \<open>One round of the loop over \<open>LAYER_DESCRIPTORS\<close>: the view and the roles matched so far.\<close>

definition install_role ::
  "(string \<Rightarrow> string) \<Rightarrow> Theme \<Rightarrow> string list \<Rightarrow> view \<times> string list \<Rightarrow> LayerDescriptor \<Rightarrow>
   view \<times> string list" where
  "install_role uni theme vectorLayers acc d =
     (let v = fst acc; matched = snd acc in
      case find_source_layer uni (d_matches d) vectorLayers of
        None \<Rightarrow> (v, matched)
      | Some sourceLayer \<Rightarrow>
          let layerId = ''pm-'' @ d_key d;
              layoutProps0 = (case d_layout d of Some f \<Rightarrow> f theme | None \<Rightarrow> []);
              on = (case map_of (enabledLayersRef v) (d_key d) of Some b \<Rightarrow> b | None \<Rightarrow> True);
              layoutProps = prop_set ''visibility'' (visibility_of on) layoutProps0;
              l = \<lparr>layer_id = layerId, layer_type = d_type d, layer_source = Some ''pm'',
                   source_layer = Some sourceLayer, paint = d_paint d theme, layout = layoutProps,
                   minzoom = d_minzoom d, maxzoom = d_maxzoom d\<rparr>;
              m1 = (if getLayer (vmap v) layerId \<noteq> None then removeLayer (vmap v) layerId else vmap v);
              m2 = addLayer m1 l
          in (v\<lparr>vmap := m2, layerIdsRef := prop_set (d_key d) layerId (layerIdsRef v)\<rparr>,
              matched @ [d_key d]))"

definition enable_matched :: "string list \<Rightarrow> (string \<times> bool) list \<Rightarrow> (string \<times> bool) list" where
  "enable_matched matched prev =
     foldl (\<lambda>nxt k. if map_of nxt k = None then prop_set k True nxt else nxt) prev matched"

text \<open>
  \<open>installBasemap\<close>. The metadata read gives the names under \<open>vector_layers\<close> (if the
  field is there) or fails; a failure is logged and leaves the list empty. The header is
  read for the status text only. The result is the view and the error thrown, if any.
\<close>

definition installBasemap ::
  "(string \<Rightarrow> string) \<Rightarrow> string \<Rightarrow> string list option settled \<Rightarrow> view \<Rightarrow>
   view \<times> js_error option" where
  "installBasemap uni src metadata v =
     (if src = [] then (v, None)
      else if sourceUrlRef v = Some src \<and> getSource (vmap v) ''pm'' \<noteq> None
      then (applyTheme v, None)
      else
        let v1 = v\<lparr>sourceUrlRef := Some src\<rparr>;
            pmtiles = PMTiles (UrlSource src);
            v2 = v1\<lparr>protocolRef := map_option (\<lambda>ps. ps @ [pmtiles]) (protocolRef v1)\<rparr>;
            vectorLayers = (case metadata of
                              Resolved (Some ls) \<Rightarrow> ls
                            | Resolved None \<Rightarrow> []
                            | Rejected e \<Rightarrow> []);
            v3 = removeLayers v2
        in case addSource (vmap v3) ''pm''
                  \<lparr>source_url = ''pmtiles://'' @ src,
                   attribution = copyright_sign @ '' OpenStreetMap contributors''\<rparr> of
             Inl e \<Rightarrow> (v3, Some e)
           | Inr m \<Rightarrow>
               let theme = themeRef v3;
                   (v4, matched) = foldl (install_role uni theme vectorLayers) (v3\<lparr>vmap := m\<rparr>, [])
                                     LAYER_DESCRIPTORS;
                   v5 = v4\<lparr>availableLayers := matched,
                           enabledLayers := enable_matched matched (enabledLayers v4)\<rparr>
               in (applyTheme v5, None))"

section \<open>sord-field-kit/src/components/MapView.tsx: the renderer over the offline cache\<close>

definition SOURCE_ID :: string where
  "SOURCE_ID = ''basemap''"

record KitLayer =
  k_key :: string
  k_matches :: "string list"
  k_build :: "string \<Rightarrow> layer"

definition kit_layer ::
  "string \<Rightarrow> string \<Rightarrow> (string \<times> style_value) list \<Rightarrow> string \<Rightarrow> layer" where
  "kit_layer i ty ps sourceLayer =
     \<lparr>layer_id = i, layer_type = ty, layer_source = Some SOURCE_ID,
      source_layer = Some sourceLayer, paint = ps, layout = [],
      minzoom = None, maxzoom = None\<rparr>"

definition LAYERS :: "KitLayer list" where
  "LAYERS =
     [\<lparr>k_key = ''land'', k_matches = [''land'', ''earth'', ''park''],
       k_build = kit_layer ''basemap-land'' ''fill''
                   [(''fill-color'', SStr ''#1e2a36''), (''fill-opacity'', SNum 55 2)]\<rparr>,
      \<lparr>k_key = ''water'', k_matches = [''water''],
       k_build = kit_layer ''basemap-water'' ''fill''
                   [(''fill-color'', SStr ''#2f8edb''), (''fill-opacity'', SNum 6 1)]\<rparr>,
      \<lparr>k_key = ''roads'', k_matches = [''road'', ''transport''],
       k_build = kit_layer ''basemap-roads'' ''line''
                   [(''line-color'', SStr ''#f1f3f5''), (''line-width'', SNum 12 1)]\<rparr>,
      \<lparr>k_key = ''buildings'', k_matches = [''building''],
       k_build = kit_layer ''basemap-buildings'' ''fill''
                   [(''fill-color'', SStr ''#d29b4b''), (''fill-opacity'', SNum 55 2)]\<rparr>]"

record kit_view =
  kmap :: map_state
  kit_layerIds :: "(string \<times> string) list"
  offlineSourceUrlRef :: "string option"
  pmtiles_module :: pm_module

definition removeLayerCollection :: "kit_view \<Rightarrow> kit_view" where
  "removeLayerCollection v =
     v\<lparr>kmap := foldl (\<lambda>m layerId. if getLayer m layerId \<noteq> None then removeLayer m layerId else m)
                  (kmap v) (map snd (kit_layerIds v)),
       kit_layerIds := []\<rparr>"

definition addVectorSource ::
  "map_state \<Rightarrow> string \<Rightarrow> string \<Rightarrow> string \<Rightarrow> js_error + map_state" where
  "addVectorSource m sourceId tile att =
     (let m1 = (if getSource m sourceId \<noteq> None then removeSource m sourceId else m)
      in addSource m1 sourceId \<lparr>source_url = tile, attribution = att\<rparr>)"

definition kit_role ::
  "(string \<Rightarrow> string) \<Rightarrow> string list \<Rightarrow> kit_view \<Rightarrow> KitLayer \<Rightarrow> kit_view" where
  "kit_role uni available v d =
     (case find_source_layer uni (k_matches d) available of
        None \<Rightarrow> v
      | Some sourceLayer \<Rightarrow>
          if sourceLayer = [] then v
          else
            let layerSpec = k_build d sourceLayer;
                m1 = (if getLayer (kmap v) (layer_id layerSpec) \<noteq> None
                      then removeLayer (kmap v) (layer_id layerSpec) else kmap v);
                m2 = addLayer m1 layerSpec
            in v\<lparr>kmap := m2, kit_layerIds := prop_set (k_key d) (layer_id layerSpec) (kit_layerIds v)\<rparr>)"

text \<open>
  \<open>installBasemap\<close> of the kit: no check of what is bound. The result is the view and
  either the error thrown or the descriptor handed to the callbacks.
\<close>

definition installBasemap_kit ::
  "(string \<Rightarrow> string) \<Rightarrow> (archive_source \<Rightarrow> string) \<Rightarrow> blob option \<Rightarrow> response settled \<Rightarrow>
   string list option settled \<Rightarrow> kit_view \<Rightarrow> kit_view \<times> (js_error + BasemapInfo)" where
  "installBasemap_kit uni getKey b probe metadata v =
     (let (modl, pmtiles, info) =
            resolvePMTiles getKey b (case b of Some _ \<Rightarrow> offlineSourceUrlRef v | None \<Rightarrow> None)
              probe (pmtiles_module v);
          v1 = removeLayerCollection (v\<lparr>pmtiles_module := modl\<rparr>)
      in case addVectorSource (kmap v1) SOURCE_ID (tileUrl info)
                (copyright_sign @ '' OpenStreetMap, '' @ copyright_sign @ '' Protomaps'') of
           Inl e \<Rightarrow> (v1, Inl e)
         | Inr m \<Rightarrow>
             let v2 = v1\<lparr>kmap := m\<rparr> in
             (case metadata of
                Rejected e \<Rightarrow> (v2, Inr info)
              | Resolved md \<Rightarrow>
                  let available = (case md of Some ls \<Rightarrow> ls | None \<Rightarrow> [])
                  in (foldl (kit_role uni available) v2 LAYERS, Inr info)))"

section \<open>Notions for the renderers' properties\<close>

text \<open>
  A layer without its paint and layout properties: what a re-theming cannot change. The
  binding of a layer: its id, its source and the source layer it draws. A view is well
  tracked when every layer of its map is recorded in \<open>layerIdsRef\<close>, the background
  layer of the initial style apart.
\<close>

definition bare :: "layer \<Rightarrow> layer" where
  "bare l = l\<lparr>paint := [], layout := []\<rparr>"

text \<open>
  Containment without regard to case, stated from the alphabet. In ASCII text two
  characters are the same letter when they are equal or are the two cases of one letter,
  and a name contains a needle when some stretch of the name agrees with the needle
  letter by letter. Where one of them has other characters, their lower-case forms are
  compared: that of ASCII text is read off the alphabet, that of other text is given by
  the case mapping \<open>uni\<close>. A needle is plain when it is ASCII without capital letters.
\<close>

definition letter_pairs :: "(char \<times> char) list" where
  "letter_pairs =
     [(CHR ''A'', CHR ''a''), (CHR ''B'', CHR ''b''), (CHR ''C'', CHR ''c''), (CHR ''D'', CHR ''d''),
      (CHR ''E'', CHR ''e''), (CHR ''F'', CHR ''f''), (CHR ''G'', CHR ''g''), (CHR ''H'', CHR ''h''),
      (CHR ''I'', CHR ''i''), (CHR ''J'', CHR ''j''), (CHR ''K'', CHR ''k''), (CHR ''L'', CHR ''l''),
      (CHR ''M'', CHR ''m''), (CHR ''N'', CHR ''n''), (CHR ''O'', CHR ''o''), (CHR ''P'', CHR ''p''),
      (CHR ''Q'', CHR ''q''), (CHR ''R'', CHR ''r''), (CHR ''S'', CHR ''s''), (CHR ''T'', CHR ''t''),
      (CHR ''U'', CHR ''u''), (CHR ''V'', CHR ''v''), (CHR ''W'', CHR ''w''), (CHR ''X'', CHR ''x''),
      (CHR ''Y'', CHR ''y''), (CHR ''Z'', CHR ''z'')]"

definition same_letter :: "char \<Rightarrow> char \<Rightarrow> bool" where
  "same_letter c d = (c = d \<or> (c, d) \<in> set letter_pairs \<or> (d, c) \<in> set letter_pairs)"

fun ci_startsWith :: "string \<Rightarrow> string \<Rightarrow> bool" where
  "ci_startsWith s [] = True"
| "ci_startsWith [] (n # ns) = False"
| "ci_startsWith (c # cs) (n # ns) = (same_letter c n \<and> ci_startsWith cs ns)"

fun ci_includes :: "string \<Rightarrow> string \<Rightarrow> bool" where
  "ci_includes [] n = (n = [])"
| "ci_includes (c # cs) n = (ci_startsWith (c # cs) n \<or> ci_includes cs n)"

definition lower_letter :: "char \<Rightarrow> char" where
  "lower_letter c = (case map_of letter_pairs c of Some l \<Rightarrow> l | None \<Rightarrow> c)"

definition lower_form :: "(string \<Rightarrow> string) \<Rightarrow> string \<Rightarrow> string" where
  "lower_form uni s = (if list_all is_ascii s then map lower_letter s else uni s)"

definition caseless :: "(string \<Rightarrow> string) \<Rightarrow> string \<Rightarrow> string \<Rightarrow> bool" where
  "caseless uni name needle =
     (if list_all is_ascii name \<and> list_all is_ascii needle then ci_includes name needle
      else str_includes (lower_form uni name) (lower_form uni needle))"

definition plain :: "string \<Rightarrow> bool" where
  "plain n = list_all (\<lambda>c. is_ascii c \<and> c \<notin> set (map fst letter_pairs)) n"

definition first_match :: "(string \<Rightarrow> string) \<Rightarrow> string list \<Rightarrow> string list \<Rightarrow> string option" where
  "first_match uni needles names = find (\<lambda>c. list_ex (caseless uni c) needles) names"

definition binding :: "layer \<Rightarrow> string \<times> string option \<times> string option" where
  "binding l = (layer_id l, layer_source l, source_layer l)"

definition foreign_layer :: "layer \<Rightarrow> bool" where
  "foreign_layer l = (layer_id l = ''background'' \<and> layer_source l = None)"

definition well_tracked :: "view \<Rightarrow> bool" where
  "well_tracked v =
     list_all (\<lambda>l. layer_id l \<in> set (map snd (layerIdsRef v)) \<or> foreign_layer l) (layers (vmap v))"

definition well_tracked_kit :: "kit_view \<Rightarrow> bool" where
  "well_tracked_kit v =
     list_all (\<lambda>l. layer_id l \<in> set (map snd (kit_layerIds v)) \<or> foreign_layer l) (layers (kmap v))"

text \<open>
  What a role contributes to a rebuilt map: at most one binding, and at most one tracked
  id. \<open>pre\<close> is the prefix of the generated layer ids and \<open>sid\<close> the id of the source.
\<close>

definition role_binding ::
  "(string \<Rightarrow> string) \<Rightarrow> string \<Rightarrow> string \<Rightarrow> string list \<Rightarrow> string \<times> string list \<Rightarrow>
   (string \<times> string option \<times> string option) list" where
  "role_binding uni pre sid names d =
     (case first_match uni (snd d) names of
        None \<Rightarrow> []
      | Some s \<Rightarrow> [(pre @ fst d, Some sid, Some s)])"

definition role_id ::
  "(string \<Rightarrow> string) \<Rightarrow> string \<Rightarrow> string list \<Rightarrow> string \<times> string list \<Rightarrow> (string \<times> string) list" where
  "role_id uni pre names d =
     (case first_match uni (snd d) names of
        None \<Rightarrow> []
      | Some s \<Rightarrow> [(fst d, pre @ fst d)])"

definition names_of :: "string list option settled \<Rightarrow> string list" where
  "names_of metadata = (case metadata of Resolved (Some ls) \<Rightarrow> ls | Resolved None \<Rightarrow> [] | Rejected e \<Rightarrow> [])"

text \<open>The style both components create the map with, and the components before the first install.\<close>

definition initial_map :: "string \<Rightarrow> map_state" where
  "initial_map bg =
     \<lparr>sources = [],
      layers = [\<lparr>layer_id = ''background'', layer_type = ''background'', layer_source = None,
                 source_layer = None, paint = [(''background-color'', SStr bg)], layout = [],
                 minzoom = None, maxzoom = None\<rparr>]\<rparr>"

definition initial_view :: view where
  "initial_view =
     \<lparr>vmap = initial_map (th_background theme_dark), layerIdsRef = [], sourceUrlRef = None,
      themeRef = theme_dark,
      enabledLayersRef = map (\<lambda>d. (d_key d, True)) LAYER_DESCRIPTORS,
      protocolRef = Some [], availableLayers = [],
      enabledLayers = map (\<lambda>d. (d_key d, True)) LAYER_DESCRIPTORS\<rparr>"

text \<open>
  Sample names in mixed case. One of them is outside ASCII: \<open>ParK\<close> written with the
  Kelvin sign U+212A, whose lower-case form is \<open>park\<close>. The case mapping of the samples
  knows that name; the other names are ASCII and do not reach it.
\<close>

definition park_name :: string where
  "park_name = ''Par'' @ [CHR 0xE2, CHR 0x84, CHR 0xAA]"

definition sample_uni :: "string \<Rightarrow> string" where
  "sample_uni s = (if s = park_name then ''park'' else s)"

definition mixed_names :: "string list" where
  "mixed_names = [''Roads'', ''WaterWay'', ''water'', park_name]"

definition initial_kit_view :: "string option \<Rightarrow> kit_view" where
  "initial_kit_view provenance =
     \<lparr>kmap = initial_map ''#091221'', kit_layerIds = [], offlineSourceUrlRef = provenance,
      pmtiles_module = initial_module\<rparr>"

section \<open>Properties\<close>

subsection \<open>Strings\<close>


lemma startsWith_append: "startsWith (n @ b) n"
  by (induction n) auto

lemma startsWith_split: "startsWith s w \<Longrightarrow> s = w @ drop (length w) s"
  by (induction s w rule: startsWith.induct) auto

lemma startsWith_comparable:
  "startsWith s a \<Longrightarrow> startsWith s b \<Longrightarrow> startsWith a b \<or> startsWith b a"
  by (induction s a arbitrary: b rule: startsWith.induct) (case_tac b; auto)+

lemma startsWith_Nil: "startsWith [] w = (w = [])"
  by (cases w) simp_all


subsection \<open>Reading the stored archive\<close>

text \<open>
  C9. \<open>readPMTilesBlob\<close> never throws, whatever value sits in the store. A bare Blob
  (the legacy format) comes back as a record with that blob and no \<open>sourceUrl\<close>; an
  object whose \<open>blob\<close> property is a Blob comes back with the blob and the object's
  \<open>sourceUrl\<close>; every other stored value, and an empty slot, gives \<open>null\<close>.
\<close>

theorem readPMTilesBlob_total:
  "readPMTilesBlob store =
     Inr (case store PM_TILES_CACHE_KEY of
            Some (JBlob b) \<Rightarrow> Some \<lparr>blob = b, sourceUrl = JUndefined\<rparr>
          | Some (JObj fs) \<Rightarrow>
              (case map_of fs ''blob'' of
                 Some (JBlob b) \<Rightarrow>
                   Some \<lparr>blob = b,
                         sourceUrl = (case map_of fs ''sourceUrl'' of Some u \<Rightarrow> u | None \<Rightarrow> JUndefined)\<rparr>
               | _ \<Rightarrow> None)
          | _ \<Rightarrow> None)"
  by (auto simp: readPMTilesBlob_def idb_get_def type_error_def Let_def
           split: option.splits js_value.splits sum.splits bool.splits)

subsection \<open>The chunk arithmetic\<close>

lemma ceil_div_int:
  fixes a b :: int
  assumes "0 < b"
  shows "- (- a div b) = (a + (b - 1)) div b"
proof -
  define q where "q = a div b"
  define r where "r = a mod b"
  have a: "a = b * q + r" by (simp add: q_def r_def)
  have r: "0 \<le> r" "r < b" using assms by (simp_all add: r_def)
  show ?thesis
  proof (cases "r = 0")
    case True
    have "(b * q + (b - 1)) div b = q"
      using assms by (simp add: div_pos_pos_trivial)
    moreover have "- (- a div b) = q"
      using True assms by (simp add: zdiv_zminus1_eq_if q_def r_def)
    ultimately show ?thesis using a True by simp
  next
    case False
    have "a + (b - 1) = b * (q + 1) + (r - 1)"
      using a by (simp add: algebra_simps)
    then have "(a + (b - 1)) div b = (b * (q + 1) + (r - 1)) div b" by (simp only:)
    also have "\<dots> = q + 1"
      using r False assms by (simp add: div_pos_pos_trivial)
    finally show ?thesis
      using False assms by (simp add: zdiv_zminus1_eq_if q_def r_def)
  qed
qed

lemma ceil_div_nat:
  fixes n b :: nat
  assumes "0 < b"
  shows "nat \<lceil>real n / real b\<rceil> = (n + (b - 1)) div b"
proof -
  have "\<lceil>real n / real b\<rceil> = \<lceil>(of_int (int n) :: real) / of_int (int b)\<rceil>" by simp
  also have "\<dots> = - (- int n div int b)" by (rule ceiling_divide_eq_div)
  also have "\<dots> = (int n + (int b - 1)) div int b" using assms by (simp only: ceil_div_int of_nat_0_less_iff)
  also have "\<dots> = int ((n + (b - 1)) div b)"
    using assms by (simp add: zdiv_int of_nat_diff add_diff_eq)
  finally show ?thesis by simp
qed

lemma ceil_chunks_ceiling: "ceil_chunks n = nat \<lceil>real n / 65536\<rceil>"
  using ceil_div_nat[of 65536 n] by (simp add: ceil_chunks_def CHUNK_SIZE_def)

lemma feed_no_values: "\<not> list_ex is_value rs \<Longrightarrow> foldl feed t rs = t"
proof (induction rs arbitrary: t)
  case Nil
  show ?case by simp
next
  case (Cons x rs)
  then show ?case by (cases x) simp_all
qed

lemma feed_one:
  "total (feed t x) = total t"
  "estimatedChunks (feed t x) = estimatedChunks t"
  "receivedBytes (feed t x) = receivedBytes t + bytes_of x"
  "stored (feed t x) = stored t + units_of x"
  "length (concat (chunks (feed t x))) = length (concat (chunks t)) + bytes_of x"
  by (cases x; simp add: on_chunk_def)+

lemma feed_total: "total (foldl feed t rs) = total t"
  by (induction rs arbitrary: t) (simp_all add: feed_one)

lemma feed_estimated: "estimatedChunks (foldl feed t rs) = estimatedChunks t"
  by (induction rs arbitrary: t) (simp_all add: feed_one)

lemma feed_received: "receivedBytes (foldl feed t rs) = receivedBytes t + sum_list (map bytes_of rs)"
  by (induction rs arbitrary: t) (simp_all add: feed_one)

lemma feed_stored: "stored (foldl feed t rs) = stored t + sum_list (map units_of rs)"
  by (induction rs arbitrary: t) (simp_all add: feed_one)

lemma feed_size:
  "length (concat (chunks (foldl feed t rs))) = length (concat (chunks t)) + sum_list (map bytes_of rs)"
  by (induction rs arbitrary: t) (simp_all add: feed_one)

lemmas feed_fields = feed_total feed_estimated feed_received feed_stored feed_size

lemma signal_aborted_status [simp]: "signal_aborted (h\<lparr>status := s\<rparr>) c = signal_aborted h c"
  by (simp add: signal_aborted_def)

lemma drive_reads:
  assumes "\<not> signal_aborted h (ctrl r)" and "stage r = AwaitRead t" and "ReadDone \<notin> set rs"
  shows "drive (h, Some r) (map (\<lambda>x. ReadSettles (Resolved x)) rs @ es) =
         drive (h\<lparr>status := (if list_ex is_value rs then progress_status (foldl feed t rs) else status h)\<rparr>,
                Some (r\<lparr>stage := AwaitRead (foldl feed t rs)\<rparr>)) es"
  using assms
proof (induction rs arbitrary: h r t)
  case Nil
  then show ?case by (cases r) simp
next
  case (Cons x rs)
  show ?case
  proof (cases x)
    case (ReadValue v)
    have "drive (h, Some r) (map (\<lambda>x. ReadSettles (Resolved x)) (x # rs) @ es) =
          drive (h\<lparr>status := progress_status (on_chunk v t)\<rparr>, Some (r\<lparr>stage := AwaitRead (on_chunk v t)\<rparr>))
            (map (\<lambda>x. ReadSettles (Resolved x)) rs @ es)"
      using Cons.prems ReadValue by (simp add: read_settled_def deliver_def Let_def)
    also have "\<dots> = drive (h\<lparr>status := (if list_ex is_value rs then progress_status (foldl feed (on_chunk v t) rs)
                                          else progress_status (on_chunk v t))\<rparr>,
                Some (r\<lparr>stage := AwaitRead (foldl feed (on_chunk v t) rs)\<rparr>)) es"
      using Cons.IH[of "h\<lparr>status := progress_status (on_chunk v t)\<rparr>" "r\<lparr>stage := AwaitRead (on_chunk v t)\<rparr>" "on_chunk v t"]
        Cons.prems by simp
    finally show ?thesis using ReadValue feed_no_values[of rs "on_chunk v t"]
      by (cases "list_ex is_value rs") simp_all
  next
    case ReadNoValue
    have "drive (h, Some r) (map (\<lambda>x. ReadSettles (Resolved x)) (x # rs) @ es) =
          drive (h, Some r) (map (\<lambda>x. ReadSettles (Resolved x)) rs @ es)"
      using Cons.prems ReadNoValue by (simp add: read_settled_def deliver_def)
    then show ?thesis using Cons.IH[of h r t] Cons.prems ReadNoValue by simp
  next
    case ReadDone
    then show ?thesis using Cons.prems by simp
  qed
qed

lemma units_zero_bytes:
  "sum_list (map bytes_of rs) = 0 \<Longrightarrow> sum_list (map units_of rs) = length (filter is_value rs)"
proof (induction rs)
  case Nil
  show ?case by simp
next
  case (Cons x rs)
  then show ?case by (cases x) (simp_all add: ceil_chunks_def CHUNK_SIZE_def)
qed

lemma ceil_chunks_pos: "0 < n \<Longrightarrow> 0 < ceil_chunks n"
  by (simp add: ceil_chunks_def CHUNK_SIZE_def div_greater_zero_iff)

subsection \<open>A download that runs to its end\<close>

lemmas sample_defs = sample_url_def sample_blob_def sample_store_def sample_response_def sample_run_def

lemma sample_loaded:
  "load_effect (initial_hook pref sample_store) =
     \<lparr>enabled = pref, offlineBlob = Some sample_blob, cachedSourceUrl = Some sample_url,
      hasCache = True,
      status = \<lparr>phase = Ready, storedChunks = 1, totalChunks = 1, bytesStored = 3,
                 totalBytes = Some 3, error = None\<rparr>,
      controllerRef = None, activeUrlRef = None, controllers = [],
      db = sample_store, requests = []\<rparr>"
  by (simp add: load_effect_def initial_hook_def sample_defs savePMTilesBlob_def idb_set_def
        readPMTilesBlob_def idb_get_def url_value_def url_of_value_def blob_size_def
        ceil_chunks_def CHUNK_SIZE_def Let_def numeral_3_eq_3)

text \<open>
  C1, as stated, fails for an empty archive: with Content-Length 0 the total counts as
  unknown, and the finished call reports one chunk where \<open>ceil(0 / 65536)\<close> is zero.
\<close>

theorem empty_download_reports_one_chunk:
  "response_ok (sample_response 200 (Some 0)) \<and>
   content_length (sample_response 200 (Some 0)) = Some 0 \<and>
   snd (drive (startCaching (Some sample_url) (initial_hook True Map.empty))
          [FetchSettles (Resolved (sample_response 200 (Some 0))),
           ReadSettles (Resolved ReadDone), SaveSettles (Resolved ())]) = None \<and>
   phase (status (fst (drive (startCaching (Some sample_url) (initial_hook True Map.empty))
          [FetchSettles (Resolved (sample_response 200 (Some 0))),
           ReadSettles (Resolved ReadDone), SaveSettles (Resolved ())]))) = Ready \<and>
   storedChunks (status (fst (drive (startCaching (Some sample_url) (initial_hook True Map.empty))
          [FetchSettles (Resolved (sample_response 200 (Some 0))),
           ReadSettles (Resolved ReadDone), SaveSettles (Resolved ())]))) = 1 \<and>
   totalChunks (status (fst (drive (startCaching (Some sample_url) (initial_hook True Map.empty))
          [FetchSettles (Resolved (sample_response 200 (Some 0))),
           ReadSettles (Resolved ReadDone), SaveSettles (Resolved ())]))) = 1 \<and>
   nat \<lceil>real (0 :: nat) / 65536\<rceil> = 0"
  by (simp add: startCaching_def initial_hook_def sample_url_def sample_response_def Let_def
        fetch_settled_def read_settled_def save_settled_def deliver_def signal_aborted_def
        response_ok_def totalBytes_of_def ready_status_def num_or_def assemble_def blob_size_def)

text \<open>
  C1, amended. A call whose response is ok with a body and Content-Length \<open>T\<close>, whose
  reads deliver \<open>T\<close> bytes in any division into chunks before the stream ends, and whose
  blob is stored, ends in phase Ready with \<open>bytesStored = T\<close> and with both chunk
  counters equal. For \<open>T > 0\<close> the counters are \<open>ceil(T / 65536)\<close>; for \<open>T = 0\<close> they
  are the number of (empty) chunks received, and at least one.
\<close>

theorem download_completes:
  assumes "u \<noteq> []" and "response_ok resp" and "resp_body resp"
    and "content_length resp = Some T"
    and "ReadDone \<notin> set rs" and "sum_list (map bytes_of rs) = T"
  shows "let res = drive (startCaching (Some u) h)
                     ([FetchSettles (Resolved resp)] @ map (\<lambda>x. ReadSettles (Resolved x)) rs @
                      [ReadSettles (Resolved ReadDone), SaveSettles (Resolved ())])
         in snd res = None \<and>
            phase (status (fst res)) = Ready \<and>
            bytesStored (status (fst res)) = T \<and>
            storedChunks (status (fst res)) = totalChunks (status (fst res)) \<and>
            totalChunks (status (fst res)) =
              (if T = 0 then max 1 (length (filter is_value rs)) else nat \<lceil>real T / 65536\<rceil>)"
proof -
  obtain h2 r where start: "startCaching (Some u) h = (h2, Some r)"
    and fresh: "\<not> signal_aborted h2 (ctrl r)" and st: "stage r = AwaitFetch"
    using assms(1)
    by (auto simp: startCaching_def Let_def signal_aborted_def abort_def split: option.splits)
  define t0 where "t0 = \<lparr>total = totalBytes_of resp,
     estimatedChunks = (case totalBytes_of resp of Some n \<Rightarrow> ceil_chunks n | None \<Rightarrow> 0),
     chunks = [], receivedBytes = 0, stored = 0\<rparr>"
  define t1 where "t1 = foldl feed t0 rs"
  define r1 where "r1 = r\<lparr>stage := AwaitRead t0\<rparr>"
  have step1: "resume r (FetchSettles (Resolved resp)) h2 = (h2, Some r1)"
    using fresh st assms(2,3) by (simp add: fetch_settled_def deliver_def Let_def t0_def r1_def)
  define h3 where "h3 = h2\<lparr>status := (if list_ex is_value rs then progress_status t1 else status h2)\<rparr>"
  have fresh3: "\<not> signal_aborted h3 (ctrl r1)"
    using fresh by (simp add: h3_def r1_def)
  have loop: "drive (h2, Some r1) (map (\<lambda>x. ReadSettles (Resolved x)) rs @
                 [ReadSettles (Resolved ReadDone), SaveSettles (Resolved ())]) =
              drive (h3, Some (r1\<lparr>stage := AwaitRead t1\<rparr>))
                 [ReadSettles (Resolved ReadDone), SaveSettles (Resolved ())]"
    using drive_reads[of h2 r1 t0 rs] fresh assms(5) by (simp add: r1_def h3_def t1_def)
  have fin: "drive (h3, Some (r1\<lparr>stage := AwaitRead t1\<rparr>))
                 [ReadSettles (Resolved ReadDone), SaveSettles (Resolved ())] =
             (h3\<lparr>db := savePMTilesBlob (assemble t1) (Some (url r1)) (db h3),
                 offlineBlob := Some (assemble t1), hasCache := True,
                 cachedSourceUrl := Some (url r1), status := ready_status t1 (assemble t1),
                 controllerRef := None\<rparr>, None)"
    using fresh3 by (simp add: read_settled_def deliver_def save_settled_def)
  have res: "drive (startCaching (Some u) h)
                     ([FetchSettles (Resolved resp)] @ map (\<lambda>x. ReadSettles (Resolved x)) rs @
                      [ReadSettles (Resolved ReadDone), SaveSettles (Resolved ())]) =
             (h3\<lparr>db := savePMTilesBlob (assemble t1) (Some (url r1)) (db h3),
                 offlineBlob := Some (assemble t1), hasCache := True,
                 cachedSourceUrl := Some (url r1), status := ready_status t1 (assemble t1),
                 controllerRef := None\<rparr>, None)"
    using start step1 loop fin by simp
  have rb: "receivedBytes t1 = T" and sz: "blob_size (assemble t1) = T"
    and stt: "stored t1 = sum_list (map units_of rs)"
    and est: "estimatedChunks t1 = (if T = 0 then 0 else ceil_chunks T)"
    using feed_fields[of t0 rs] assms(4,6)
    by (simp_all add: t1_def t0_def assemble_def blob_size_def totalBytes_of_def)
  have chunks: "num_or (num_or (estimatedChunks t1) (stored t1)) 1 =
                  (if T = 0 then max 1 (length (filter is_value rs)) else ceil_chunks T)"
  proof (cases "T = 0")
    case True
    have "num_or (length (filter is_value rs)) 1 = max 1 (length (filter is_value rs))"
      by (cases "filter is_value rs") (simp_all add: num_or_def)
    then show ?thesis using True est stt units_zero_bytes[of rs] assms(6) by (simp add: num_or_def)
  next
    case False
    then show ?thesis using est ceil_chunks_pos[of T] by (simp add: num_or_def)
  qed
  have bytes: "num_or (receivedBytes t1) (blob_size (assemble t1)) = T"
    using rb sz by (simp add: num_or_def)
  have fields: "storedChunks (ready_status t1 (assemble t1)) =
          (if T = 0 then max 1 (length (filter is_value rs)) else nat \<lceil>real T / 65536\<rceil>)"
       "totalChunks (ready_status t1 (assemble t1)) =
          (if T = 0 then max 1 (length (filter is_value rs)) else nat \<lceil>real T / 65536\<rceil>)"
       "bytesStored (ready_status t1 (assemble t1)) = T"
       "phase (ready_status t1 (assemble t1)) = Ready"
    using chunks bytes ceil_chunks_ceiling[of T] by (simp_all add: ready_status_def Let_def)
  show ?thesis
    unfolding res Let_def fst_conv snd_conv by (simp add: fields)
qed

lemma running_count:
  "storedChunks (status (fst (drive (startCaching (Some sample_url) (initial_hook True Map.empty))
               [FetchSettles (Resolved (sample_response 200 (Some 70000))),
                ReadSettles (Resolved (ReadValue (replicate 30000 0))),
                ReadSettles (Resolved (ReadValue (replicate 30000 0))),
                ReadSettles (Resolved ReadNoValue),
                ReadSettles (Resolved (ReadValue (replicate 10000 0)))]))) = 3"
  by (simp add: startCaching_def initial_hook_def sample_url_def sample_response_def Let_def
        fetch_settled_def read_settled_def deliver_def signal_aborted_def response_ok_def
        totalBytes_of_def on_chunk_def progress_status_def ceil_chunks_def CHUNK_SIZE_def num_or_def)

theorem download_completes_witness:
  "let res = drive (startCaching (Some sample_url) (initial_hook True Map.empty))
               [FetchSettles (Resolved (sample_response 200 (Some 70000))),
                ReadSettles (Resolved (ReadValue (replicate 30000 0))),
                ReadSettles (Resolved (ReadValue (replicate 30000 0))),
                ReadSettles (Resolved ReadNoValue),
                ReadSettles (Resolved (ReadValue (replicate 10000 0))),
                ReadSettles (Resolved ReadDone), SaveSettles (Resolved ())]
   in snd res = None \<and>
      phase (status (fst res)) = Ready \<and>
      bytesStored (status (fst res)) = 70000 \<and>
      storedChunks (status (fst res)) = 2 \<and>
      totalChunks (status (fst res)) = 2 \<and>
      storedChunks (status (fst (drive (startCaching (Some sample_url) (initial_hook True Map.empty))
               [FetchSettles (Resolved (sample_response 200 (Some 70000))),
                ReadSettles (Resolved (ReadValue (replicate 30000 0))),
                ReadSettles (Resolved (ReadValue (replicate 30000 0))),
                ReadSettles (Resolved ReadNoValue),
                ReadSettles (Resolved (ReadValue (replicate 10000 0)))]))) = 3"
proof -
  have "let res = drive (startCaching (Some sample_url) (initial_hook True Map.empty))
               [FetchSettles (Resolved (sample_response 200 (Some 70000))),
                ReadSettles (Resolved (ReadValue (replicate 30000 0))),
                ReadSettles (Resolved (ReadValue (replicate 30000 0))),
                ReadSettles (Resolved ReadNoValue),
                ReadSettles (Resolved (ReadValue (replicate 10000 0))),
                ReadSettles (Resolved ReadDone), SaveSettles (Resolved ())]
        in snd res = None \<and>
           phase (status (fst res)) = Ready \<and>
           bytesStored (status (fst res)) = 70000 \<and>
           storedChunks (status (fst res)) = 2 \<and>
           totalChunks (status (fst res)) = 2"
    using download_completes [of sample_url "sample_response 200 (Some 70000)" 70000
        "[ReadValue (replicate 30000 0), ReadValue (replicate 30000 0), ReadNoValue,
          ReadValue (replicate 10000 0)]" "initial_hook True Map.empty"]
    by (simp add: sample_url_def sample_response_def response_ok_def Let_def)
  then show ?thesis
    unfolding Let_def using running_count by blast
qed

subsection \<open>Cancellation and failure\<close>

lemma resume_aborted:
  assumes "signal_aborted g (ctrl r)" and "awaits_request r ev"
  shows "resume r ev g = (g\<lparr>status := (status g)\<lparr>phase := Paused\<rparr>, controllerRef := None\<rparr>, None)"
  using assms
  by (cases ev; cases "stage r")
     (simp_all add: awaits_request_def fetch_settled_def read_settled_def deliver_def
        on_throw_def abort_error_def)

lemma aborted_by:
  assumes "controllerRef h = Some c" and "c < length (controllers h)"
  shows "signal_aborted (pauseCaching h) c"
    and "u \<noteq> [] \<Longrightarrow> signal_aborted (fst (startCaching (Some u) h)) c"
    and "signal_aborted (fst (setEnabled False p h)) c"
    and "signal_aborted (clearCache_begin h) c"
  using assms
  by (simp_all add: pauseCaching_def startCaching_def setEnabled_def enable_effect_def
        clearCache_begin_def resetController_def abort_def signal_aborted_def Let_def nth_append)

lemma error_only_from_failure:
  assumes "error (status (fst (resume r ev g))) = Some m"
  shows "error (status g) = Some m \<or>
         (\<exists>e. err_name e \<noteq> ''AbortError'' \<and> err_message e = m \<and> fst (resume r ev g) = on_throw e g)"
proof -
  have thrown: "error (status (on_throw e g)) = Some m \<Longrightarrow>
        error (status g) = Some m \<or>
        (\<exists>e'. err_name e' \<noteq> ''AbortError'' \<and> err_message e' = m \<and> on_throw e g = on_throw e' g)" for e
    by (cases "err_name e = ''AbortError''") (auto simp: on_throw_def)
  show ?thesis
  proof (cases ev)
    case (FetchSettles out)
    then show ?thesis using assms thrown
      by (cases "stage r")
         (auto simp: fetch_settled_def Let_def split: settled.splits if_splits)
  next
    case (ReadSettles out)
    then show ?thesis using assms thrown
      by (cases "stage r")
         (auto simp: read_settled_def Let_def progress_status_def split: settled.splits read_result.splits)
  next
    case (SaveSettles out)
    then show ?thesis using assms thrown
      by (cases "stage r")
         (auto simp: save_settled_def ready_status_def Let_def split: settled.splits)
  qed
qed

lemma save_ignores_abort:
  assumes "stage r = AwaitSave t b"
  shows "resume r (SaveSettles (Resolved ())) (pauseCaching h) =
           save_settled r t b (Resolved ()) (pauseCaching h)"
    and "phase (status (fst (resume r (SaveSettles (Resolved ())) (pauseCaching h)))) = Ready"
  using assms by (simp_all add: save_settled_def ready_status_def Let_def)

text \<open>
  C2, as stated, fails for teardown: unmounting aborts nothing. A download that is in
  flight when the component goes away is not cancelled: its signal is not aborted, no
  continuation takes the abort branch, and here the call runs to its end and writes the
  archive to the store.
\<close>

theorem teardown_does_not_abort:
  "snd (startCaching (Some sample_url) (initial_hook True Map.empty)) = Some sample_run \<and>
   \<not> signal_aborted (unmount (fst (startCaching (Some sample_url) (initial_hook True Map.empty))))
        (ctrl sample_run) \<and>
   snd (drive (unmount (fst (startCaching (Some sample_url) (initial_hook True Map.empty))), Some sample_run)
          [FetchSettles (Resolved (sample_response 200 (Some 3))),
           ReadSettles (Resolved (ReadValue [1, 2, 3])),
           ReadSettles (Resolved ReadDone), SaveSettles (Resolved ())]) = None \<and>
   phase (status (fst (drive
          (unmount (fst (startCaching (Some sample_url) (initial_hook True Map.empty))), Some sample_run)
          [FetchSettles (Resolved (sample_response 200 (Some 3))),
           ReadSettles (Resolved (ReadValue [1, 2, 3])),
           ReadSettles (Resolved ReadDone), SaveSettles (Resolved ())]))) \<noteq> Paused \<and>
   db (fst (drive
          (unmount (fst (startCaching (Some sample_url) (initial_hook True Map.empty))), Some sample_run)
          [FetchSettles (Resolved (sample_response 200 (Some 3))),
           ReadSettles (Resolved (ReadValue [1, 2, 3])),
           ReadSettles (Resolved ReadDone), SaveSettles (Resolved ())])) PM_TILES_CACHE_KEY =
     Some (JObj [(''blob'', JBlob sample_blob), (''sourceUrl'', JStr sample_url)])"
  by (simp add: unmount_def startCaching_def initial_hook_def sample_url_def sample_run_def
        sample_response_def sample_blob_def Let_def signal_aborted_def fetch_settled_def
        read_settled_def save_settled_def deliver_def response_ok_def totalBytes_of_def
        on_chunk_def progress_status_def ready_status_def assemble_def savePMTilesBlob_def
        idb_set_def url_value_def)

text \<open>
  C2, amended. Let a call be in flight on the controller the hook holds, waiting for the fetch or
  for a read of the body. After \<open>pauseCaching\<close>, after a new \<open>startCaching\<close>, after the
  feature is switched off, and after \<open>clearCache\<close> has reset the controller, the call's
  next continuation is the abort branch: it sets the phase to Paused, leaves the error
  field and every counter as they are, and ends the call. In general a continuation leaves an error message that was not already
  there only when it handled a thrown error whose name is not AbortError.
\<close>

theorem abort_pauses_without_error:
  assumes "controllerRef h = Some (ctrl r)" and "ctrl r < length (controllers h)"
    and "awaits_request r ev" and "u \<noteq> []"
    and "g = pauseCaching h \<or> g = fst (startCaching (Some u) h) \<or>
         g = fst (setEnabled False p h) \<or> g = clearCache_begin h"
  shows "resume r ev g = (g\<lparr>status := (status g)\<lparr>phase := Paused\<rparr>, controllerRef := None\<rparr>, None) \<and>
         phase (status (fst (resume r ev g))) = Paused \<and>
         error (status (fst (resume r ev g))) = error (status g) \<and>
         (\<forall>r' ev' g' m. error (status (fst (resume r' ev' g'))) = Some m \<longrightarrow>
            error (status g') = Some m \<or>
            (\<exists>e. err_name e \<noteq> ''AbortError'' \<and> err_message e = m \<and>
                 fst (resume r' ev' g') = on_throw e g'))"
proof -
  have "signal_aborted g (ctrl r)"
    using assms(5) aborted_by[OF assms(1,2)] assms(4) by auto
  then have "resume r ev g = (g\<lparr>status := (status g)\<lparr>phase := Paused\<rparr>, controllerRef := None\<rparr>, None)"
    using assms(3) by (rule resume_aborted)
  then show ?thesis
    using error_only_from_failure by simp
qed

theorem abort_pauses_without_error_witness:
  "fst (startCaching (Some sample_url) (initial_hook True Map.empty)) =
     (initial_hook True Map.empty)
       \<lparr>controllers := [False], controllerRef := Some 0, activeUrlRef := Some sample_url,
        cachedSourceUrl := Some sample_url, status := downloading0,
        requests := [(sample_url, 0)]\<rparr> \<and>
   snd (resume sample_run (FetchSettles (Resolved (sample_response 200 (Some 70000))))
          (pauseCaching (fst (startCaching (Some sample_url) (initial_hook True Map.empty))))) = None \<and>
   phase (status (fst (resume sample_run (FetchSettles (Resolved (sample_response 200 (Some 70000))))
          (pauseCaching (fst (startCaching (Some sample_url) (initial_hook True Map.empty))))))) = Paused \<and>
   error (status (fst (resume sample_run (FetchSettles (Resolved (sample_response 200 (Some 70000))))
          (pauseCaching (fst (startCaching (Some sample_url) (initial_hook True Map.empty))))))) = None"
proof -
  let ?h = "fst (startCaching (Some sample_url) (initial_hook True Map.empty))"
  have start: "?h = (initial_hook True Map.empty)
       \<lparr>controllers := [False], controllerRef := Some 0, activeUrlRef := Some sample_url,
        cachedSourceUrl := Some sample_url, status := downloading0,
        requests := [(sample_url, 0)]\<rparr>"
    by (simp add: startCaching_def initial_hook_def sample_url_def Let_def)
  have a1: "controllerRef ?h = Some (ctrl sample_run)"
    and a2: "ctrl sample_run < length (controllers ?h)"
    and a3: "awaits_request sample_run (FetchSettles (Resolved (sample_response 200 (Some 70000))))"
    and a4: "sample_url \<noteq> []"
    unfolding start by (simp_all add: sample_run_def sample_url_def awaits_request_def)
  have "error (status (pauseCaching ?h)) = None"
    unfolding start by (simp add: pauseCaching_def abort_def downloading0_def)
  then show ?thesis
    using abort_pauses_without_error [OF a1 a2 a3 a4, of "pauseCaching ?h" None] start by simp
qed



text \<open>
  C4 on the code. A cached archive is loaded, the enabled hook starts a download, and the
  feature is switched off while the fetch is pending. The effect aborts the request and
  sets the phase to Ready; the aborted call's handler runs after it and sets the phase
  to Paused, which is where the status stays. The store and the blob in memory are
  untouched.
\<close>

theorem toggle_off_while_downloading_ends_paused:
  "let h1 = load_effect (initial_hook True sample_store);
       started = enable_effect (Some sample_url) h1;
       off = setEnabled False (Some sample_url) (fst started);
       settled = resume sample_run (FetchSettles (Resolved (sample_response 200 (Some 3)))) (fst off)
   in hasCache h1 \<and>
      snd started = Some sample_run \<and>
      phase (status (fst started)) = Downloading \<and>
      signal_aborted (fst off) (ctrl sample_run) \<and>
      phase (status (fst off)) = Ready \<and>
      snd settled = None \<and>
      phase (status (fst settled)) = Paused \<and>
      db (fst settled) = db h1 \<and>
      offlineBlob (fst settled) = offlineBlob h1"
  unfolding sample_loaded
  by (simp add: Let_def enable_effect_def setEnabled_def startCaching_def
        url_truthy_def resetController_def abort_def signal_aborted_def
        downloading0_def fetch_settled_def deliver_def on_throw_def abort_error_def
        sample_url_def sample_run_def)



text \<open>
  A download in flight when \<open>clearCache\<close> is called is aborted by it. Its continuation
  runs while \<open>clearCache\<close> awaits the store, and what it writes is overwritten when
  \<open>clearCache\<close> goes on: the result is that of \<open>clearCache\<close> alone.
\<close>

lemma clearCache_over_aborted_call:
  assumes "controllerRef h = Some (ctrl r)" and "ctrl r < length (controllers h)"
    and "awaits_request r ev"
  shows "snd (resume r ev (clearCache_begin h)) = None"
    and "clearCache_finish (fst (resume r ev (clearCache_begin h))) = clearCache h"
proof -
  have ab: "signal_aborted (clearCache_begin h) (ctrl r)"
    using assms(1,2)
    by (simp add: clearCache_begin_def resetController_def abort_def signal_aborted_def)
  have res: "resume r ev (clearCache_begin h) = (on_throw abort_error (clearCache_begin h), None)"
    using assms(3) ab
    by (cases ev; cases "stage r")
       (simp_all add: awaits_request_def fetch_settled_def read_settled_def deliver_def)
  show "snd (resume r ev (clearCache_begin h)) = None"
    by (simp add: res)
  have "clearCache_finish (on_throw abort_error (clearCache_begin h)) = clearCache h"
    using assms(1)
    by (simp add: clearCache_def clearCache_finish_def clearCache_begin_def on_throw_def
          abort_error_def resetController_def abort_def Let_def)
  then show "clearCache_finish (fst (resume r ev (clearCache_begin h))) = clearCache h"
    by (simp only: res fst_conv)
qed




text \<open>
  C10. Without a tile URL (\<open>null\<close> or the empty string) \<open>startCaching\<close> suspends
  nothing and issues no fetch; the state it returns differs from the one it got only in
  the phase, now Error, and the error message, now \<open>No PMTiles source available\<close>.
\<close>

theorem startCaching_without_url:
  assumes "\<not> url_truthy u"
  shows "startCaching u h =
           (h\<lparr>status := (status h)\<lparr>phase := Error, error := Some ''No PMTiles source available''\<rparr>\<rparr>,
            None) \<and>
         requests (fst (startCaching u h)) = requests h \<and>
         db (fst (startCaching u h)) = db h \<and>
         offlineBlob (fst (startCaching u h)) = offlineBlob h \<and>
         hasCache (fst (startCaching u h)) = hasCache h \<and>
         storedChunks (status (fst (startCaching u h))) = storedChunks (status h) \<and>
         totalChunks (status (fst (startCaching u h))) = totalChunks (status h) \<and>
         bytesStored (status (fst (startCaching u h))) = bytesStored (status h) \<and>
         totalBytes (status (fst (startCaching u h))) = totalBytes (status h)"
  using assms by (auto simp: startCaching_def url_truthy_def no_source_def split: option.splits)

theorem startCaching_without_url_witness:
  "startCaching None (load_effect (initial_hook True sample_store)) =
     ((load_effect (initial_hook True sample_store))
        \<lparr>status := \<lparr>phase = Error, storedChunks = 1, totalChunks = 1, bytesStored = 3,
                    totalBytes = Some 3, error = Some ''No PMTiles source available''\<rparr>\<rparr>, None) \<and>
   startCaching (Some []) (load_effect (initial_hook True sample_store)) =
     startCaching None (load_effect (initial_hook True sample_store)) \<and>
   requests (fst (startCaching None (load_effect (initial_hook True sample_store)))) = []"
  using startCaching_without_url [of None "load_effect (initial_hook True sample_store)"]
    startCaching_without_url [of "Some []" "load_effect (initial_hook True sample_store)"]
  by (simp add: url_truthy_def sample_loaded)

subsection \<open>The resolver\<close>

lemma made_of_append: "made_of ws a \<Longrightarrow> made_of ws b \<Longrightarrow> made_of ws (a @ b)"
  by (induction rule: made_of.induct) (auto intro: made_of.intros)

lemma made_of_rev: "made_of (map rev ws) s \<Longrightarrow> made_of ws (rev s)"
proof (induction rule: made_of.induct)
  case made_of_Nil
  show ?case by (simp add: made_of.intros)
next
  case (made_of_Cons w s)
  then obtain w' where w': "w' \<in> set ws" "w = rev w'" by auto
  have "made_of ws (w' @ [])"
    using w'(1) made_of.intros(1) by (rule made_of.intros(2))
  then have "made_of ws (rev w)"
    using w'(2) by simp
  then show ?case
    using made_of_Cons made_of_append by simp
qed

lemma strip_empty: "strip ws [] = []"
proof -
  have "find (\<lambda>w. w \<noteq> [] \<and> startsWith [] w) ws = None"
    by (simp add: find_None_iff startsWith_Nil)
  then show ?thesis by (subst strip.simps) simp
qed

lemma strip_made: "strip ws s = [] \<Longrightarrow> made_of ws s"
proof (induction ws s rule: strip.induct)
  case (1 ws s)
  show ?case
  proof (cases "find (\<lambda>w. w \<noteq> [] \<and> startsWith s w) ws")
    case None
    then have "strip ws s = s" by (subst strip.simps) simp
    then show ?thesis using 1(2) by (simp add: made_of.intros)
  next
    case (Some w)
    then have st: "strip ws s = strip ws (drop (length w) s)" by (subst strip.simps) simp
    have w: "w \<in> set ws" "startsWith s w"
      using Some by (auto simp: find_Some_iff)
    have "made_of ws (drop (length w) s)"
      using 1(1)[OF Some] 1(2) st by simp
    then have "made_of ws (w @ drop (length w) s)"
      using w(1) by (rule made_of.intros(2)[rotated])
    then show ?thesis using startsWith_split[OF w(2)] by simp
  qed
qed

lemma strip_split: "\<exists>p. made_of ws p \<and> s = p @ strip ws s"
proof (induction ws s rule: strip.induct)
  case (1 ws s)
  show ?case
  proof (cases "find (\<lambda>w. w \<noteq> [] \<and> startsWith s w) ws")
    case None
    then have "strip ws s = s" by (subst strip.simps) simp
    then show ?thesis using made_of.intros(1)[of ws] by (intro exI[of _ "[]"]) simp
  next
    case (Some w)
    then have st: "strip ws s = strip ws (drop (length w) s)" by (subst strip.simps) simp
    have w: "w \<in> set ws" "startsWith s w"
      using Some by (auto simp: find_Some_iff)
    obtain p where p: "made_of ws p" "drop (length w) s = p @ strip ws (drop (length w) s)"
      using 1[OF Some] by blast
    have "made_of ws (w @ p)" using w(1) p(1) by (rule made_of.intros(2))
    moreover have "s = (w @ p) @ strip ws s"
      using startsWith_split[OF w(2)] p(2) st by simp
    ultimately show ?thesis by blast
  qed
qed

lemma made_strip:
  assumes "prefix_free ws" and "made_of ws s"
  shows "strip ws s = []"
  using assms(2)
proof (induction rule: made_of.induct)
  case made_of_Nil
  show ?case by (rule strip_empty)
next
  case (made_of_Cons w s)
  have pf: "\<And>a b. a \<in> set ws \<Longrightarrow> b \<in> set ws \<Longrightarrow> startsWith a b \<Longrightarrow> a = b"
    and ne: "\<And>a. a \<in> set ws \<Longrightarrow> a \<noteq> []"
    using assms(1) by (auto simp: prefix_free_def list_all_iff)
  have "w \<noteq> [] \<and> startsWith (w @ s) w"
    using ne[OF made_of_Cons(1)] startsWith_append by simp
  then have "find (\<lambda>x. x \<noteq> [] \<and> startsWith (w @ s) x) ws \<noteq> None"
    using made_of_Cons(1) by (auto simp: find_None_iff)
  then obtain w' where f: "find (\<lambda>x. x \<noteq> [] \<and> startsWith (w @ s) x) ws = Some w'"
    by auto
  then have w': "w' \<in> set ws" "startsWith (w @ s) w'"
    by (auto simp: find_Some_iff)
  have "startsWith w w' \<or> startsWith w' w"
    using startsWith_comparable[OF startsWith_append[of w s] w'(2)] .
  then have "w' = w"
    using pf[OF made_of_Cons(1) w'(1)] pf[OF w'(1) made_of_Cons(1)] by auto
  then have "strip ws (w @ s) = strip ws s"
    using f by (subst strip.simps) simp
  then show ?case using made_of_Cons(3) by simp
qed

lemma white_space_prefix_free: "prefix_free white_space"
  by (simp add: prefix_free_def white_space_def)

text \<open>Trimming leaves nothing exactly of blank text.\<close>

lemma trim_blank: "(trim s = []) = blank s"
proof
  assume "trim s = []"
  then have "strip (map rev white_space) (rev (strip white_space s)) = []"
    by (simp add: trim_def)
  then have "made_of (map rev white_space) (rev (strip white_space s))"
    by (rule strip_made)
  then have "made_of white_space (strip white_space s)"
    using made_of_rev by fastforce
  moreover obtain p where "made_of white_space p" "s = p @ strip white_space s"
    using strip_split by blast
  ultimately show "blank s"
    unfolding blank_def using made_of_append by metis
next
  assume "blank s"
  then have "strip white_space s = []"
    unfolding blank_def by (rule made_strip[OF white_space_prefix_free])
  then show "trim s = []"
    by (simp add: trim_def strip_empty)
qed

lemma blank_cases: "(u \<noteq> [] \<and> length (trim u) > 0) = (\<not> blank u)"
proof (cases "u = []")
  case True
  then show ?thesis by (simp add: blank_def made_of.intros)
next
  case False
  then show ?thesis using trim_blank[of u] by simp
qed

lemma trim_samples:
  "trim ''  '' = []"
  "trim [CHR 0xC2, CHR 0xA0] = []"
  "trim ([CHR 0xE2, CHR 0x80, CHR 0xA8] @ ''a b'' @ [CHR 0xEF, CHR 0xBB, CHR 0xBF, CHR 0x09]) = ''a b''"
  "trim ''indexeddb://x'' = ''indexeddb://x''"
  "trim ''https://example.org/a.pmtiles'' = ''https://example.org/a.pmtiles''"
  by (simp_all add: trim_def strip.simps white_space_def)

lemma ensureProtocol_fields:
  "protocolRegistered (ensureProtocol m)"
  "protocolInstance (ensureProtocol m) = Some (case protocolInstance m of Some ps \<Rightarrow> ps | None \<Rightarrow> [])"
  by (auto simp: ensureProtocol_def Let_def)

lemma ensureProtocol_handlers:
  "maplibre_protocols (ensureProtocol m) =
     (if protocolRegistered m then maplibre_protocols m else maplibre_protocols m @ [''pmtiles''])"
  by (auto simp: ensureProtocol_def Let_def)

text \<open>
  C5, as stated, fails where it says when \<open>usedLocal\<close> is set: the resolver does not
  compare the provenance with the cache-origin tag, it tests the prefix \<open>indexeddb://\<close>.
  A cached archive recorded as coming from \<open>indexeddb://x\<close>, which is neither the bundled
  path nor the tag, is reported with \<open>usedLocal\<close> set.
\<close>

theorem cache_scheme_counts_as_local:
  "usedLocal (snd (snd (resolvePMTiles sample_getKey (Some sample_blob) (Some ''indexeddb://x'')
                          (Rejected net_error) initial_module))) \<and>
   info_sourceUrl (snd (snd (resolvePMTiles sample_getKey (Some sample_blob) (Some ''indexeddb://x'')
                               (Rejected net_error) initial_module))) = ''indexeddb://x'' \<and>
   ''indexeddb://x'' \<noteq> LOCAL_PM_TILES_PATH \<and>
   ''indexeddb://x'' \<noteq> CACHE_ORIGIN_TAG"
  by (simp add: resolvePMTiles_def Let_def trim_samples LOCAL_PM_TILES_PATH_def CACHE_ORIGIN_TAG_def)

text \<open>
  C5, amended. \<open>resolvePMTiles\<close> follows the priority order. With an offline blob it
  builds the archive over a file made from the blob, sets \<open>usedOfflineCache\<close>, takes the
  recorded provenance as the source URL unless that is absent or blank (empty, or white
  space throughout), in which case the URL is \<open>indexeddb://offline-basemap\<close>, and sets
  \<open>usedLocal\<close> exactly when the URL is the bundled path or begins with \<open>indexeddb://\<close>.
  Without a blob it uses the bundled path exactly when the HEAD probe resolves with an ok
  status, and the remote URL otherwise, with \<open>usedLocal\<close> accordingly and
  \<open>usedOfflineCache\<close> false. In every case the archive is added to the protocol object,
  the protocol handler is registered, and \<open>tileUrl\<close> is \<open>pmtiles://\<close> followed by the key
  of the archive's source.
\<close>

theorem resolvePMTiles_priority:
  "let res = resolvePMTiles getKey ob ou probe m;
       m' = fst res; p = fst (snd res); info = snd (snd res)
   in (case ob of
         Some b \<Rightarrow>
           usedOfflineCache info \<and>
           source p = FileSource (File (blob_bytes b) ''offline-basemap.pmtiles'' ''application/octet-stream'') \<and>
           info_sourceUrl info =
             (case ou of
                None \<Rightarrow> ''indexeddb://offline-basemap''
              | Some s \<Rightarrow> if blank s then ''indexeddb://offline-basemap'' else s) \<and>
           usedLocal info =
             (info_sourceUrl info = ''/tiles/basemap.pmtiles'' \<or>
              startsWith (info_sourceUrl info) ''indexeddb://'')
       | None \<Rightarrow>
           \<not> usedOfflineCache info \<and>
           usedLocal info = hasLocalPMTiles probe \<and>
           info_sourceUrl info =
             (if hasLocalPMTiles probe then ''/tiles/basemap.pmtiles''
              else ''https://pmtiles.io/protomaps(vector)ODbL_firenze.pmtiles'') \<and>
           source p = UrlSource (info_sourceUrl info)) \<and>
      tileUrl info = ''pmtiles://'' @ getKey (source p) \<and>
      protocolInstance m' =
        Some ((case protocolInstance m of Some ps \<Rightarrow> ps | None \<Rightarrow> []) @ [p]) \<and>
      protocolRegistered m' \<and>
      maplibre_protocols m' =
        (if protocolRegistered m then maplibre_protocols m else maplibre_protocols m @ [''pmtiles''])"
proof (cases ob)
  case None
  then show ?thesis
    by (simp add: resolvePMTiles_def Let_def protocol_add_def ensureProtocol_fields
          ensureProtocol_handlers tile_handle_def LOCAL_PM_TILES_PATH_def REMOTE_PM_TILES_URL_def)
next
  case (Some b)
  show ?thesis
  proof (cases ou)
    case None
    then show ?thesis
      using Some
      by (simp add: resolvePMTiles_def Let_def protocol_add_def ensureProtocol_fields
            ensureProtocol_handlers tile_handle_def LOCAL_PM_TILES_PATH_def CACHE_ORIGIN_TAG_def)
  next
    case (Some u)
    then show ?thesis
      using \<open>ob = Some b\<close> blank_cases[of u]
      by (simp add: resolvePMTiles_def Let_def protocol_add_def ensureProtocol_fields
            ensureProtocol_handlers tile_handle_def LOCAL_PM_TILES_PATH_def CACHE_ORIGIN_TAG_def)
  qed
qed

theorem resolvePMTiles_priority_witness:
  "usedOfflineCache (snd (snd (resolvePMTiles sample_getKey (Some sample_blob) (Some ''  '')
                                 (Rejected net_error) initial_module))) \<and>
   usedLocal (snd (snd (resolvePMTiles sample_getKey (Some sample_blob) (Some ''  '')
                          (Rejected net_error) initial_module))) \<and>
   info_sourceUrl (snd (snd (resolvePMTiles sample_getKey (Some sample_blob) (Some ''  '')
                               (Rejected net_error) initial_module))) = ''indexeddb://offline-basemap'' \<and>
   tileUrl (snd (snd (resolvePMTiles sample_getKey (Some sample_blob) (Some ''  '')
                        (Rejected net_error) initial_module))) = ''pmtiles://offline-basemap.pmtiles'' \<and>
   protocolInstance (fst (resolvePMTiles sample_getKey (Some sample_blob) (Some ''  '')
                            (Rejected net_error) initial_module)) =
     Some [fst (snd (resolvePMTiles sample_getKey (Some sample_blob) (Some ''  '')
                       (Rejected net_error) initial_module))] \<and>
   info_sourceUrl (snd (snd (resolvePMTiles sample_getKey (Some sample_blob) (Some [CHR 0xC2, CHR 0xA0])
                               (Rejected net_error) initial_module))) = ''indexeddb://offline-basemap'' \<and>
   usedLocal (snd (snd (resolvePMTiles sample_getKey (Some sample_blob) (Some [CHR 0xC2, CHR 0xA0])
                          (Rejected net_error) initial_module))) \<and>
   info_sourceUrl (snd (snd (resolvePMTiles sample_getKey (Some sample_blob)
                               (Some ''https://example.org/a.pmtiles'')
                               (Rejected net_error) initial_module))) = ''https://example.org/a.pmtiles'' \<and>
   \<not> usedLocal (snd (snd (resolvePMTiles sample_getKey (Some sample_blob)
                            (Some ''https://example.org/a.pmtiles'')
                            (Rejected net_error) initial_module))) \<and>
   info_sourceUrl (snd (snd (resolvePMTiles sample_getKey None None
                               (Resolved (sample_response 200 None)) initial_module))) =
     ''/tiles/basemap.pmtiles'' \<and>
   usedLocal (snd (snd (resolvePMTiles sample_getKey None None
                          (Resolved (sample_response 200 None)) initial_module))) \<and>
   info_sourceUrl (snd (snd (resolvePMTiles sample_getKey None None
                               (Resolved (sample_response 404 None)) initial_module))) =
     ''https://pmtiles.io/protomaps(vector)ODbL_firenze.pmtiles'' \<and>
   \<not> usedLocal (snd (snd (resolvePMTiles sample_getKey None None
                            (Rejected net_error) initial_module)))"
  using resolvePMTiles_priority [of sample_getKey "Some sample_blob" "Some ''  ''"
          "Rejected net_error" initial_module]
    resolvePMTiles_priority [of sample_getKey "Some sample_blob" "Some [CHR 0xC2, CHR 0xA0]"
          "Rejected net_error" initial_module]
    resolvePMTiles_priority [of sample_getKey "Some sample_blob" "Some ''https://example.org/a.pmtiles''"
          "Rejected net_error" initial_module]
    resolvePMTiles_priority [of sample_getKey None None "Resolved (sample_response 200 None)" initial_module]
    resolvePMTiles_priority [of sample_getKey None None "Resolved (sample_response 404 None)" initial_module]
    resolvePMTiles_priority [of sample_getKey None None "Rejected net_error" initial_module]
  by (simp add: Let_def sample_blob_def sample_getKey_def initial_module_def
        hasLocalPMTiles_def response_ok_def sample_response_def trim_blank[symmetric] trim_samples)

subsection \<open>Re-theming keeps the structure of the map\<close>

lemma bare_prop [simp]:
  "bare (l\<lparr>paint := ps\<rparr>) = bare l" "bare (l\<lparr>layout := ls\<rparr>) = bare l"
  by (simp_all add: bare_def)

lemma setPaintProperty_bare [simp]:
  "map bare (layers (setPaintProperty m i p x)) = map bare (layers m)"
  "sources (setPaintProperty m i p x) = sources m"
  by (simp_all add: setPaintProperty_def comp_def cong: if_cong)

lemma setLayoutProperty_bare [simp]:
  "map bare (layers (setLayoutProperty m i p x)) = map bare (layers m)"
  "sources (setLayoutProperty m i p x) = sources m"
  by (simp_all add: setLayoutProperty_def comp_def cong: if_cong)

lemma paint_all_bare [simp]:
  "map bare (layers (paint_all i ps m)) = map bare (layers m) \<and> sources (paint_all i ps m) = sources m"
  unfolding paint_all_def by (induction ps arbitrary: m) (simp_all add: case_prod_beta)

lemma layout_all_bare [simp]:
  "map bare (layers (layout_all i ps m)) = map bare (layers m) \<and> sources (layout_all i ps m) = sources m"
  unfolding layout_all_def by (induction ps arbitrary: m) (simp_all add: case_prod_beta)

lemma theme_role_bare [simp]:
  "map bare (layers (theme_role th ids m d)) = map bare (layers m) \<and>
   sources (theme_role th ids m d) = sources m"
  by (simp add: theme_role_def Let_def split: option.splits)

lemma theme_roles_bare:
  "map bare (layers (foldl (theme_role th ids) m ds)) = map bare (layers m) \<and>
   sources (foldl (theme_role th ids) m ds) = sources m"
  by (induction ds arbitrary: m) simp_all

lemma applyTheme_bare:
  "map bare (layers (vmap (applyTheme v))) = map bare (layers (vmap v))"
  "sources (vmap (applyTheme v)) = sources (vmap v)"
  "applyTheme v = v\<lparr>vmap := vmap (applyTheme v)\<rparr>"
  by (simp_all add: applyTheme_def Let_def theme_roles_bare)

lemma bare_id: "layer_id (bare l) = layer_id l"
  by (simp add: bare_def)

lemma ids_of_bare: "map bare xs = map bare ys \<Longrightarrow> map layer_id xs = map layer_id ys"
proof -
  assume "map bare xs = map bare ys"
  then have "map (layer_id \<circ> bare) xs = map (layer_id \<circ> bare) ys"
    by (metis map_map)
  then show ?thesis by (simp add: comp_def bare_id)
qed

subsection \<open>Matching\<close>

lemma find_cong_pred: "(\<And>x. x \<in> set xs \<Longrightarrow> P x = Q x) \<Longrightarrow> find P xs = find Q xs"
  by (induction xs) auto

text \<open>
  The table of \<open>lower_char\<close> and the alphabet agree: two characters are the same letter
  exactly when they have the same lower-case form.
\<close>

lemma lower_pairs:
  "(map_of (zip ''ABCDEFGHIJKLMNOPQRSTUVWXYZ'' ''abcdefghijklmnopqrstuvwxyz'') c = Some l) =
     ((c, l) \<in> set letter_pairs)"
proof -
  have "zip ''ABCDEFGHIJKLMNOPQRSTUVWXYZ'' ''abcdefghijklmnopqrstuvwxyz'' = letter_pairs"
    by (simp add: letter_pairs_def)
  moreover have "distinct (map fst letter_pairs)"
    by (simp add: letter_pairs_def)
  ultimately show ?thesis by simp
qed

lemma letter_pairs_inj:
  "list_all (\<lambda>p. list_all (\<lambda>q. (snd p = snd q \<longrightarrow> fst p = fst q) \<and> fst p \<noteq> snd q) letter_pairs)
     letter_pairs"
  by (simp add: letter_pairs_def)

lemma lower_char_pairs:
  "(c, l) \<in> set letter_pairs \<Longrightarrow> lower_char c = l"
  "(\<And>l. (c, l) \<notin> set letter_pairs) \<Longrightarrow> lower_char c = c"
proof -
  let ?t = "map_of (zip ''ABCDEFGHIJKLMNOPQRSTUVWXYZ'' ''abcdefghijklmnopqrstuvwxyz'') c"
  show "lower_char c = l" if "(c, l) \<in> set letter_pairs"
  proof -
    have "?t = Some l" using that by (simp only: lower_pairs)
    then show ?thesis unfolding lower_char_def by (simp only: option.case)
  qed
  show "lower_char c = c" if "\<And>l. (c, l) \<notin> set letter_pairs"
  proof (cases ?t)
    case None
    then show ?thesis unfolding lower_char_def by (simp only: option.case)
  next
    case (Some l)
    then have "(c, l) \<in> set letter_pairs" by (simp only: lower_pairs)
    then show ?thesis using that by blast
  qed
qed

lemma lower_form_code: "lower_form uni s = toLowerCase uni s"
proof -
  have "lower_letter c = lower_char c" for c
  proof (cases "map_of letter_pairs c")
    case None
    then have "\<And>l. (c, l) \<notin> set letter_pairs"
      by (auto simp: map_of_eq_None_iff image_iff)
    then have "lower_char c = c" by (rule lower_char_pairs(2))
    then show ?thesis using None by (simp add: lower_letter_def)
  next
    case (Some l)
    then have "(c, l) \<in> set letter_pairs" by (rule map_of_SomeD)
    then have "lower_char c = l" by (rule lower_char_pairs(1))
    then show ?thesis using Some by (simp add: lower_letter_def)
  qed
  then show ?thesis by (simp add: lower_form_def toLowerCase_def)
qed

lemma same_letter_lower: "same_letter c d = (lower_char c = lower_char d)"
proof -
  have all: "\<forall>p\<in>set letter_pairs. \<forall>q\<in>set letter_pairs.
               (snd p = snd q \<longrightarrow> fst p = fst q) \<and> fst p \<noteq> snd q"
    using letter_pairs_inj unfolding list_all_iff .
  have inj: "(b = b' \<longrightarrow> a = a') \<and> a \<noteq> b'"
    if "(a, b) \<in> set letter_pairs" "(a', b') \<in> set letter_pairs" for a b a' b'
  proof -
    from all that(1)
    have "\<forall>q\<in>set letter_pairs. (snd (a, b) = snd q \<longrightarrow> fst (a, b) = fst q) \<and> fst (a, b) \<noteq> snd q"
      by (rule bspec)
    from this that(2)
    have "(snd (a, b) = snd (a', b') \<longrightarrow> fst (a, b) = fst (a', b')) \<and> fst (a, b) \<noteq> snd (a', b')"
      by (rule bspec)
    then show ?thesis by simp
  qed
  have fn: "b = b'" if "(a, b) \<in> set letter_pairs" "(a, b') \<in> set letter_pairs" for a b b'
    using lower_char_pairs(1)[OF that(1)] lower_char_pairs(1)[OF that(2)] by simp
  show ?thesis
  proof (cases "\<exists>k. (c, k) \<in> set letter_pairs")
    case False
    then have c: "\<And>l. (c, l) \<notin> set letter_pairs" by blast
    have lc: "lower_char c = c" using c by (rule lower_char_pairs(2))
    show ?thesis
    proof (cases "\<exists>l. (d, l) \<in> set letter_pairs")
      case False
      then have d: "\<And>l. (d, l) \<notin> set letter_pairs" by blast
      have "lower_char d = d" using d by (rule lower_char_pairs(2))
      then show ?thesis using lc c d unfolding same_letter_def by simp
    next
      case True
      then obtain l where d: "(d, l) \<in> set letter_pairs" by blast
      have ld: "lower_char d = l" using d by (rule lower_char_pairs(1))
      have "c \<noteq> d" using c d by auto
      moreover have "((d, c) \<in> set letter_pairs) = (c = l)" using d fn by auto
      ultimately show ?thesis using lc ld c unfolding same_letter_def by simp
    qed
  next
    case True
    then obtain k where c: "(c, k) \<in> set letter_pairs" by blast
    have lc: "lower_char c = k" using c by (rule lower_char_pairs(1))
    show ?thesis
    proof (cases "\<exists>l. (d, l) \<in> set letter_pairs")
      case False
      then have d: "\<And>l. (d, l) \<notin> set letter_pairs" by blast
      have ld: "lower_char d = d" using d by (rule lower_char_pairs(2))
      have "c \<noteq> d" using c d by auto
      moreover have "((c, d) \<in> set letter_pairs) = (k = d)" using c fn by auto
      ultimately show ?thesis using lc ld d unfolding same_letter_def by simp
    next
      case True
      then obtain l where d: "(d, l) \<in> set letter_pairs" by blast
      have ld: "lower_char d = l" using d by (rule lower_char_pairs(1))
      have "(c, d) \<notin> set letter_pairs"
      proof
        assume a: "(c, d) \<in> set letter_pairs"
        have "d \<noteq> d" using inj[OF d a] by (rule conjunct2)
        then show False by simp
      qed
      moreover have "(d, c) \<notin> set letter_pairs"
      proof
        assume a: "(d, c) \<in> set letter_pairs"
        have "c \<noteq> c" using inj[OF c a] by (rule conjunct2)
        then show False by simp
      qed
      moreover have "(c = d) = (k = l)"
      proof
        assume "c = d"
        then show "k = l" using fn[OF c] d by simp
      next
        assume "k = l"
        then show "c = d" using inj[OF c d] by simp
      qed
      ultimately show ?thesis using lc ld unfolding same_letter_def by simp
    qed
  qed
qed

lemma ci_startsWith_lower: "ci_startsWith s n = startsWith (map lower_char s) (map lower_char n)"
  by (induction s n rule: ci_startsWith.induct) (simp_all add: same_letter_lower)

lemma ci_includes_lower: "ci_includes s n = str_includes (map lower_char s) (map lower_char n)"
  by (induction s) (simp_all add: ci_startsWith_lower)

lemma plain_lower:
  assumes "plain n"
  shows "toLowerCase uni n = n" and "list_all is_ascii n" and "map lower_char n = n"
proof -
  have "lower_char c = c" if "c \<in> set n" for c
  proof (rule lower_char_pairs(2))
    fix l
    have "c \<notin> set (map fst letter_pairs)"
      using assms that by (simp add: plain_def list_all_iff)
    then show "(c, l) \<notin> set letter_pairs"
      by (auto simp: image_iff)
  qed
  then show "map lower_char n = n"
    by (simp add: map_idI)
  show "list_all is_ascii n"
    using assms by (simp add: plain_def list_all_iff)
  then show "toLowerCase uni n = n"
    using \<open>map lower_char n = n\<close> by (simp add: toLowerCase_def)
qed

text \<open>
  For a plain needle the test of the code, which lowers the name only, is containment
  without regard to case.
\<close>

lemma caseless_code:
  assumes "plain needle"
  shows "caseless uni name needle = str_includes (toLowerCase uni name) needle"
  using plain_lower(1)[OF assms, where uni = uni] plain_lower(2,3)[OF assms]
  by (auto simp: caseless_def ci_includes_lower lower_form_code toLowerCase_def)

lemma find_source_layer_ci:
  assumes "list_all plain needles"
  shows "find_source_layer uni needles names = first_match uni needles names"
proof -
  have "list_ex (\<lambda>needle. str_includes (toLowerCase uni c) needle) needles =
          list_ex (caseless uni c) needles" for c
    using assms by (induction needles) (simp_all add: caseless_code)
  then show ?thesis by (simp add: find_source_layer_def first_match_def)
qed

lemma str_includes_empty: "n \<noteq> [] \<Longrightarrow> \<not> str_includes [] n"
  by simp

lemma find_source_layer_nonempty:
  assumes "list_all (\<lambda>n. n \<noteq> []) needles" and "find_source_layer uni needles names = Some s"
  shows "s \<noteq> []"
proof
  assume "s = []"
  have "list_ex (\<lambda>needle. str_includes (toLowerCase uni s) needle) needles"
    using assms(2) by (auto simp: find_source_layer_def find_Some_iff)
  then show False using assms(1) \<open>s = []\<close>
    by (induction needles) (simp_all add: toLowerCase_def)
qed

lemma descriptors_lowercase:
  "list_all (\<lambda>d. list_all plain (d_matches d)) LAYER_DESCRIPTORS"
  by (simp add: LAYER_DESCRIPTORS_def plain_def is_ascii_def letter_pairs_def)

lemma descriptors_distinct: "distinct (map d_key LAYER_DESCRIPTORS)"
  by (simp add: LAYER_DESCRIPTORS_def)

lemma kit_layers_lowercase:
  "list_all (\<lambda>d. list_all (\<lambda>n. plain n \<and> n \<noteq> []) (k_matches d)) LAYERS"
  by (simp add: LAYERS_def plain_def is_ascii_def letter_pairs_def)

lemma kit_layers_distinct: "distinct (map k_key LAYERS)"
  by (simp add: LAYERS_def)

lemma kit_layers_build:
  "list_all (\<lambda>d. \<forall>s. binding (k_build d s) = (''basemap-'' @ k_key d, Some ''basemap'', Some s)) LAYERS"
  by (simp add: LAYERS_def kit_layer_def binding_def SOURCE_ID_def)

lemma waterway_matches: "caseless uni ''waterway'' ''water''"
  by (simp add: caseless_def is_ascii_def same_letter_def letter_pairs_def)

subsection \<open>Removing and adding layers\<close>

lemma remove_tracked_layers:
  "layers (foldl (\<lambda>m layerId. if getLayer m layerId \<noteq> None then removeLayer m layerId else m) m ids) =
     filter (\<lambda>l. layer_id l \<notin> set ids) (layers m) \<and>
   sources (foldl (\<lambda>m layerId. if getLayer m layerId \<noteq> None then removeLayer m layerId else m) m ids) =
     sources m"
proof (induction ids arbitrary: m)
  case Nil
  show ?case by simp
next
  case (Cons i ids)
  have "layers (if getLayer m i \<noteq> None then removeLayer m i else m) = filter (\<lambda>l. layer_id l \<noteq> i) (layers m)"
    by (auto simp: getLayer_def removeLayer_def find_None_iff filter_id_conv)
  moreover have "sources (if getLayer m i \<noteq> None then removeLayer m i else m) = sources m"
    by (simp add: removeLayer_def)
  ultimately show ?case
    using Cons[of "if getLayer m i \<noteq> None then removeLayer m i else m"]
    by (simp del: not_None_eq cong: filter_cong)
qed

lemma getSource_removed:
  "\<not> list_ex (\<lambda>l. layer_source l = Some i) (layers m) \<Longrightarrow> getSource (removeSource m i) i = None"
  by (auto simp: getSource_def removeSource_def map_of_eq_None_iff)

lemma foreign_no_source: "list_all foreign_layer ls \<Longrightarrow> \<not> list_ex (\<lambda>l. layer_source l = Some i) ls"
  by (induction ls) (simp_all add: foreign_layer_def)

lemma tracked_remainder:
  assumes "list_all (\<lambda>l. layer_id l \<in> set ids \<or> foreign_layer l) ls"
  shows "list_all foreign_layer (filter (\<lambda>l. layer_id l \<notin> set ids) ls)"
  using assms by (induction ls) auto

lemma removeLayers_result:
  assumes "well_tracked v"
  shows "list_all foreign_layer (layers (vmap (removeLayers v)))"
    and "getSource (vmap (removeLayers v)) ''pm'' = None"
    and "layerIdsRef (removeLayers v) = []"
    and "removeLayers v = v\<lparr>vmap := vmap (removeLayers v), layerIdsRef := []\<rparr>"
proof -
  let ?m1 = "foldl (\<lambda>m layerId. if getLayer m layerId \<noteq> None then removeLayer m layerId else m)
               (vmap v) (map snd (layerIdsRef v))"
  have l1: "layers ?m1 = filter (\<lambda>l. layer_id l \<notin> set (map snd (layerIdsRef v))) (layers (vmap v))"
    using remove_tracked_layers[of "vmap v" "map snd (layerIdsRef v)"] by simp
  have f1: "list_all foreign_layer (layers ?m1)"
    unfolding l1 using assms tracked_remainder[of "map snd (layerIdsRef v)" "layers (vmap v)"]
    by (simp add: well_tracked_def)
  have nouse: "\<not> list_ex (\<lambda>l. layer_source l = Some ''pm'') (layers ?m1)"
    using f1 by (rule foreign_no_source)
  have vm: "vmap (removeLayers v) = (if getSource ?m1 ''pm'' \<noteq> None then removeSource ?m1 ''pm'' else ?m1)"
    by (simp add: removeLayers_def Let_def)
  have lay: "layers (vmap (removeLayers v)) = layers ?m1"
    using nouse by (simp add: vm removeSource_def)
  show "list_all foreign_layer (layers (vmap (removeLayers v)))"
    using f1 lay by simp
  show "getSource (vmap (removeLayers v)) ''pm'' = None"
    using getSource_removed[OF nouse] by (auto simp: vm)
  show "layerIdsRef (removeLayers v) = []"
    by (simp add: removeLayers_def Let_def)
  show "removeLayers v = v\<lparr>vmap := vmap (removeLayers v), layerIdsRef := []\<rparr>"
    by (simp add: removeLayers_def Let_def)
qed

lemma binding_bare: "binding (bare l) = binding l"
  by (simp add: binding_def bare_def)

lemma bindings_of_bare: "map bare xs = map bare ys \<Longrightarrow> map binding xs = map binding ys"
proof -
  assume "map bare xs = map bare ys"
  then have "map (binding \<circ> bare) xs = map (binding \<circ> bare) ys"
    by (metis map_map)
  then show ?thesis by (simp add: comp_def binding_bare)
qed

lemma getLayer_None: "(getLayer m i = None) = (i \<notin> fst ` set (map binding (layers m)))"
  by (auto simp: getLayer_def find_None_iff binding_def image_iff)

lemma prop_set_fresh: "k \<notin> fst ` set xs \<Longrightarrow> prop_set k v xs = xs @ [(k, v)]"
  by (induction xs) auto

lemma install_role_step:
  assumes "''pm-'' @ d_key d \<notin> fst ` set (map binding (layers (vmap v)))"
    and "d_key d \<notin> fst ` set (layerIdsRef v)"
    and "list_all plain (d_matches d)"
  shows "map binding (layers (vmap (fst (install_role uni th names (v, ms) d)))) =
           map binding (layers (vmap v)) @ role_binding uni ''pm-'' ''pm'' names (d_key d, d_matches d)"
    and "sources (vmap (fst (install_role uni th names (v, ms) d))) = sources (vmap v)"
    and "layerIdsRef (fst (install_role uni th names (v, ms) d)) =
           layerIdsRef v @ role_id uni ''pm-'' names (d_key d, d_matches d)"
    and "sourceUrlRef (fst (install_role uni th names (v, ms) d)) = sourceUrlRef v"
  using assms(1,2) getLayer_None[of "vmap v" "''pm-'' @ d_key d"] find_source_layer_ci[OF assms(3), where names = names and uni = uni]
  by (auto simp: install_role_def Let_def role_binding_def role_id_def addLayer_def binding_def
        prop_set_fresh split: option.splits)

lemma install_roles:
  assumes "distinct (map d_key ds)"
    and "\<forall>d\<in>set ds. ''pm-'' @ d_key d \<notin> fst ` set (map binding (layers (vmap v)))"
    and "\<forall>d\<in>set ds. d_key d \<notin> fst ` set (layerIdsRef v)"
    and "list_all (\<lambda>d. list_all plain (d_matches d)) ds"
  shows "map binding (layers (vmap (fst (foldl (install_role uni th names) (v, ms) ds)))) =
           map binding (layers (vmap v)) @
           concat (map (\<lambda>d. role_binding uni ''pm-'' ''pm'' names (d_key d, d_matches d)) ds) \<and>
         sources (vmap (fst (foldl (install_role uni th names) (v, ms) ds))) = sources (vmap v) \<and>
         layerIdsRef (fst (foldl (install_role uni th names) (v, ms) ds)) =
           layerIdsRef v @ concat (map (\<lambda>d. role_id uni ''pm-'' names (d_key d, d_matches d)) ds) \<and>
         sourceUrlRef (fst (foldl (install_role uni th names) (v, ms) ds)) = sourceUrlRef v"
  using assms
proof (induction ds arbitrary: v ms)
  case Nil
  show ?case by simp
next
  case (Cons d ds)
  obtain v1 ms1 where step: "install_role uni th names (v, ms) d = (v1, ms1)"
    by (cases "install_role uni th names (v, ms) d")
  have s1: "map binding (layers (vmap v1)) =
              map binding (layers (vmap v)) @ role_binding uni ''pm-'' ''pm'' names (d_key d, d_matches d)"
    and s2: "sources (vmap v1) = sources (vmap v)"
    and s3: "layerIdsRef v1 = layerIdsRef v @ role_id uni ''pm-'' names (d_key d, d_matches d)"
    and s4: "sourceUrlRef v1 = sourceUrlRef v"
    using install_role_step[where d=d and v=v and names=names and th=th and ms=ms and uni=uni] Cons.prems step by simp_all
  have others: "\<forall>d'\<in>set ds. d_key d' \<noteq> d_key d"
    using Cons.prems(1) by (auto simp: image_iff)
  have fresh1: "\<forall>d'\<in>set ds. ''pm-'' @ d_key d' \<notin> fst ` set (map binding (layers (vmap v1)))"
    unfolding s1 using others Cons.prems(2)
    by (auto simp: role_binding_def split: option.splits)
  have fresh2: "\<forall>d'\<in>set ds. d_key d' \<notin> fst ` set (layerIdsRef v1)"
    unfolding s3 using others Cons.prems(3)
    by (auto simp: role_id_def split: option.splits)
  have "foldl (install_role uni th names) (v, ms) (d # ds) = foldl (install_role uni th names) (v1, ms1) ds"
    using step by simp
  then show ?case
    using Cons.IH[of v1 ms1, OF _ fresh1 fresh2] Cons.prems(1,4) s1 s2 s3 s4 by simp
qed

lemma role_filter:
  assumes "distinct (map fst ds)" and "d \<in> set ds"
  shows "filter (\<lambda>b. fst b = pre @ fst d) (concat (map (role_binding uni pre sid names) ds)) =
           role_binding uni pre sid names d"
  using assms
proof (induction ds)
  case Nil
  then show ?case by simp
next
  case (Cons x ds)
  have other: "filter (\<lambda>b. fst b = pre @ k) (role_binding uni pre sid names y) = []" if "fst y \<noteq> k" for y k
    using that by (auto simp: role_binding_def split: option.splits)
  have self: "filter (\<lambda>b. fst b = pre @ fst y) (role_binding uni pre sid names y) = role_binding uni pre sid names y" for y
    by (auto simp: role_binding_def split: option.splits)
  show ?case
  proof (cases "x = d")
    case True
    have "fst y \<noteq> fst d" if "y \<in> set ds" for y
      using Cons.prems(1) True that by (auto simp: image_iff)
    then have "filter (\<lambda>b. fst b = pre @ fst d) (concat (map (role_binding uni pre sid names) ds)) = []"
      using other by (induction ds) auto
    then show ?thesis using True self by simp
  next
    case False
    then have "d \<in> set ds" using Cons.prems(2) by simp
    moreover have "fst x \<noteq> fst d"
      using Cons.prems(1) \<open>d \<in> set ds\<close> by (auto simp: image_iff)
    ultimately show ?thesis using Cons other[of x "fst d"] by simp
  qed
qed

lemma role_id_absent:
  "\<forall>y\<in>set ds. fst y \<noteq> k \<Longrightarrow> map_of (concat (map (role_id uni pre names) ds)) k = None"
  by (induction ds) (auto simp: role_id_def split: option.splits)

lemma role_id_lookup:
  assumes "distinct (map fst ds)" and "d \<in> set ds"
  shows "map_of (concat (map (role_id uni pre names) ds)) (fst d) =
           map_option (\<lambda>s. pre @ fst d) (first_match uni (snd d) names)"
  using assms
proof (induction ds)
  case Nil
  then show ?case by simp
next
  case (Cons x ds)
  show ?case
  proof (cases "x = d")
    case True
    have "\<forall>y\<in>set ds. fst y \<noteq> fst d"
      using Cons.prems(1) True by (auto simp: image_iff)
    then have "map_of (concat (map (role_id uni pre names) ds)) (fst d) = None"
      by (rule role_id_absent)
    moreover have "map_of (role_id uni pre names d) (fst d) =
                     map_option (\<lambda>s. pre @ fst d) (first_match uni (snd d) names)"
      by (simp add: role_id_def split: option.splits)
    ultimately show ?thesis using True
      by (simp add: map_add_def split: option.splits)
  next
    case False
    then have "d \<in> set ds" using Cons.prems(2) by simp
    moreover have "fst x \<noteq> fst d"
      using Cons.prems(1) \<open>d \<in> set ds\<close> by (auto simp: image_iff)
    ultimately show ?thesis using Cons by (auto simp: role_id_def split: option.splits)
  qed
qed

lemma foreign_not_role:
  assumes "list_all foreign_layer ls" and "\<not> startsWith ''background'' pre"
  shows "filter (\<lambda>b. fst b = pre @ k) (map binding ls) = []"
    and "pre @ k \<notin> fst ` set (map binding ls)"
proof -
  have "pre @ k \<noteq> ''background''"
    using assms(2) startsWith_append[of pre k] by auto
  then have "\<forall>l\<in>set ls. fst (binding l) \<noteq> pre @ k"
    using assms(1) by (auto simp: list_all_iff foreign_layer_def binding_def)
  then show "filter (\<lambda>b. fst b = pre @ k) (map binding ls) = []"
    and "pre @ k \<notin> fst ` set (map binding ls)"
    by (auto simp: filter_empty_conv)
qed

subsection \<open>A rebuild by the themed renderer\<close>

lemma well_tracked_refs [simp]:
  "well_tracked (v\<lparr>sourceUrlRef := a\<rparr>) = well_tracked v"
  "well_tracked (v\<lparr>protocolRef := b\<rparr>) = well_tracked v"
  by (simp_all add: well_tracked_def)

lemma installBasemap_rebuild:
  assumes "well_tracked v" and "src \<noteq> []"
    and "\<not> (sourceUrlRef v = Some src \<and> getSource (vmap v) ''pm'' \<noteq> None)"
  shows "snd (installBasemap uni src metadata v) = None \<and>
         (\<exists>kept. list_all foreign_layer kept \<and>
            map binding (layers (vmap (fst (installBasemap uni src metadata v)))) =
              map binding kept @
              concat (map (\<lambda>d. role_binding uni ''pm-'' ''pm'' (names_of metadata) (d_key d, d_matches d))
                        LAYER_DESCRIPTORS)) \<and>
         layerIdsRef (fst (installBasemap uni src metadata v)) =
           concat (map (\<lambda>d. role_id uni ''pm-'' (names_of metadata) (d_key d, d_matches d)) LAYER_DESCRIPTORS) \<and>
         getSource (vmap (fst (installBasemap uni src metadata v))) ''pm'' =
           Some \<lparr>source_url = ''pmtiles://'' @ src,
                 attribution = copyright_sign @ '' OpenStreetMap contributors''\<rparr> \<and>
         sourceUrlRef (fst (installBasemap uni src metadata v)) = Some src"
proof -
  define v2 where "v2 = v\<lparr>sourceUrlRef := Some src,
     protocolRef := map_option (\<lambda>ps. ps @ [PMTiles (UrlSource src)]) (protocolRef v)\<rparr>"
  define v3 where "v3 = removeLayers v2"
  define spec where "spec = \<lparr>source_url = ''pmtiles://'' @ src,
     attribution = copyright_sign @ '' OpenStreetMap contributors''\<rparr>"
  define m where "m = (vmap v3)\<lparr>sources := sources (vmap v3) @ [(''pm'', spec)]\<rparr>"
  define folded where "folded = foldl (install_role uni (themeRef v3) (names_of metadata)) (v3\<lparr>vmap := m\<rparr>, [])
                                 LAYER_DESCRIPTORS"
  define v5 where "v5 = (fst folded)\<lparr>availableLayers := snd folded,
                           enabledLayers := enable_matched (snd folded) (enabledLayers (fst folded))\<rparr>"
  have wt: "well_tracked v2" using assms(1) by (simp add: v2_def)
  have rl: "list_all foreign_layer (layers (vmap v3))" "getSource (vmap v3) ''pm'' = None"
    "layerIdsRef v3 = []" "sourceUrlRef v3 = Some src"
  proof -
    show "list_all foreign_layer (layers (vmap v3))" "getSource (vmap v3) ''pm'' = None"
      "layerIdsRef v3 = []"
      using removeLayers_result(1,2,3)[OF wt] by (simp_all add: v3_def)
    have "sourceUrlRef (removeLayers v2) = sourceUrlRef v2"
      by (simp add: removeLayers_def Let_def)
    then show "sourceUrlRef v3 = Some src" by (simp add: v3_def v2_def)
  qed
  have add: "addSource (vmap v3) ''pm'' spec = Inr m"
    using rl(2) by (simp add: addSource_def m_def)
  have run: "installBasemap uni src metadata v = (applyTheme v5, None)"
    using assms(2,3) add
    unfolding v5_def folded_def m_def spec_def v3_def v2_def names_of_def installBasemap_def
    by (auto simp: Let_def case_prod_beta)
  have foreign: "list_all foreign_layer (layers m)"
    using rl(1) by (simp add: m_def)
  have f1: "\<forall>d\<in>set LAYER_DESCRIPTORS. ''pm-'' @ d_key d \<notin> fst ` set (map binding (layers (vmap (v3\<lparr>vmap := m\<rparr>))))"
    using foreign_not_role(2)[OF foreign, of "''pm-''"] by simp
  have f2: "\<forall>d\<in>set LAYER_DESCRIPTORS. d_key d \<notin> fst ` set (layerIdsRef (v3\<lparr>vmap := m\<rparr>))"
    using rl(3) by simp
  have fold: "map binding (layers (vmap (fst folded))) =
                map binding (layers m) @
                concat (map (\<lambda>d. role_binding uni ''pm-'' ''pm'' (names_of metadata) (d_key d, d_matches d))
                          LAYER_DESCRIPTORS)"
    "sources (vmap (fst folded)) = sources m"
    "layerIdsRef (fst folded) =
       concat (map (\<lambda>d. role_id uni ''pm-'' (names_of metadata) (d_key d, d_matches d)) LAYER_DESCRIPTORS)"
    "sourceUrlRef (fst folded) = Some src"
    using install_roles[OF descriptors_distinct f1 f2 descriptors_lowercase,
        where th = "themeRef v3" and names = "names_of metadata" and ms = "[]" and uni = uni] rl(3,4)
    by (simp_all add: folded_def)
  have b5: "map binding (layers (vmap (applyTheme v5))) =
              map binding (layers m) @
              concat (map (\<lambda>d. role_binding uni ''pm-'' ''pm'' (names_of metadata) (d_key d, d_matches d))
                        LAYER_DESCRIPTORS)"
    using fold bindings_of_bare[OF applyTheme_bare(1)[of v5]] by (simp add: v5_def)
  have i5: "layerIdsRef (applyTheme v5) =
              concat (map (\<lambda>d. role_id uni ''pm-'' (names_of metadata) (d_key d, d_matches d)) LAYER_DESCRIPTORS)"
    using fold rl(3) by (simp add: applyTheme_def Let_def v5_def)
  have s5: "getSource (vmap (applyTheme v5)) ''pm'' = Some spec"
    using fold rl(2) applyTheme_bare(2)[of v5] by (simp add: getSource_def v5_def m_def map_add_def)
  have u5: "sourceUrlRef (applyTheme v5) = Some src"
    using fold rl(4) by (simp add: applyTheme_def Let_def v5_def)
  show ?thesis
    unfolding run using foreign b5 i5 s5 u5 by (auto simp: spec_def)
qed

subsection \<open>A rebuild by the kit's renderer\<close>

lemma role_empty_names:
  "concat (map (\<lambda>d. role_binding uni pre sid [] (f d)) ds) = []"
  "concat (map (\<lambda>d. role_id uni pre [] (f d)) ds) = []"
  by (induction ds) (simp_all add: role_binding_def role_id_def first_match_def)

lemma kit_role_step:
  assumes "''basemap-'' @ k_key d \<notin> fst ` set (map binding (layers (kmap v)))"
    and "k_key d \<notin> fst ` set (kit_layerIds v)"
    and "list_all (\<lambda>n. plain n \<and> n \<noteq> []) (k_matches d)"
    and "\<forall>s. binding (k_build d s) = (''basemap-'' @ k_key d, Some ''basemap'', Some s)"
  shows "map binding (layers (kmap (kit_role uni names v d))) =
           map binding (layers (kmap v)) @ role_binding uni ''basemap-'' ''basemap'' names (k_key d, k_matches d) \<and>
         sources (kmap (kit_role uni names v d)) = sources (kmap v) \<and>
         kit_layerIds (kit_role uni names v d) =
           kit_layerIds v @ role_id uni ''basemap-'' names (k_key d, k_matches d)"
proof -
  have lower: "list_all plain (k_matches d)"
    and nonempty: "list_all (\<lambda>n. n \<noteq> []) (k_matches d)"
    using assms(3) by (simp_all add: list_all_iff)
  have fm: "find_source_layer uni (k_matches d) names = first_match uni (k_matches d) names"
    using lower by (rule find_source_layer_ci)
  have lid: "layer_id (k_build d s) = ''basemap-'' @ k_key d" for s
    using assms(4) by (simp add: binding_def)
  show ?thesis
  proof (cases "first_match uni (k_matches d) names")
    case None
    then show ?thesis
      using fm by (simp add: kit_role_def role_binding_def role_id_def)
  next
    case (Some s)
    then have "s \<noteq> []"
      using find_source_layer_nonempty[OF nonempty, where names = names and s = s and uni = uni] fm by simp
    then show ?thesis
      using Some fm lid assms(1,2,4) getLayer_None[of "kmap v" "''basemap-'' @ k_key d"]
      by (simp add: kit_role_def Let_def role_binding_def role_id_def addLayer_def prop_set_fresh)
  qed
qed

lemma kit_roles:
  assumes "distinct (map k_key ds)"
    and "\<forall>d\<in>set ds. ''basemap-'' @ k_key d \<notin> fst ` set (map binding (layers (kmap v)))"
    and "\<forall>d\<in>set ds. k_key d \<notin> fst ` set (kit_layerIds v)"
    and "list_all (\<lambda>d. list_all (\<lambda>n. plain n \<and> n \<noteq> []) (k_matches d)) ds"
    and "list_all (\<lambda>d. \<forall>s. binding (k_build d s) = (''basemap-'' @ k_key d, Some ''basemap'', Some s)) ds"
  shows "map binding (layers (kmap (foldl (kit_role uni names) v ds))) =
           map binding (layers (kmap v)) @
           concat (map (\<lambda>d. role_binding uni ''basemap-'' ''basemap'' names (k_key d, k_matches d)) ds) \<and>
         sources (kmap (foldl (kit_role uni names) v ds)) = sources (kmap v) \<and>
         kit_layerIds (foldl (kit_role uni names) v ds) =
           kit_layerIds v @ concat (map (\<lambda>d. role_id uni ''basemap-'' names (k_key d, k_matches d)) ds)"
  using assms
proof (induction ds arbitrary: v)
  case Nil
  show ?case by simp
next
  case (Cons d ds)
  define v1 where "v1 = kit_role uni names v d"
  have s1: "map binding (layers (kmap v1)) =
              map binding (layers (kmap v)) @ role_binding uni ''basemap-'' ''basemap'' names (k_key d, k_matches d)"
    and s2: "sources (kmap v1) = sources (kmap v)"
    and s3: "kit_layerIds v1 = kit_layerIds v @ role_id uni ''basemap-'' names (k_key d, k_matches d)"
    using kit_role_step[where d=d and v=v and names=names and uni=uni] Cons.prems by (simp_all add: v1_def)
  have others: "\<forall>d'\<in>set ds. k_key d' \<noteq> k_key d"
    using Cons.prems(1) by (auto simp: image_iff)
  have fresh1: "\<forall>d'\<in>set ds. ''basemap-'' @ k_key d' \<notin> fst ` set (map binding (layers (kmap v1)))"
    unfolding s1 using others Cons.prems(2)
    by (auto simp: role_binding_def split: option.splits)
  have fresh2: "\<forall>d'\<in>set ds. k_key d' \<notin> fst ` set (kit_layerIds v1)"
    unfolding s3 using others Cons.prems(3)
    by (auto simp: role_id_def split: option.splits)
  have "foldl (kit_role uni names) v (d # ds) = foldl (kit_role uni names) v1 ds"
    by (simp add: v1_def)
  then show ?case
    using Cons.IH[of v1, OF _ fresh1 fresh2] Cons.prems(1,4,5) s1 s2 s3 by simp
qed

lemma removeLayerCollection_result:
  assumes "well_tracked_kit v"
  shows "list_all foreign_layer (layers (kmap (removeLayerCollection v)))"
    and "sources (kmap (removeLayerCollection v)) = sources (kmap v)"
    and "kit_layerIds (removeLayerCollection v) = []"
proof -
  have "layers (kmap (removeLayerCollection v)) =
          filter (\<lambda>l. layer_id l \<notin> set (map snd (kit_layerIds v))) (layers (kmap v))"
    using remove_tracked_layers[of "kmap v" "map snd (kit_layerIds v)"]
    by (simp add: removeLayerCollection_def)
  then show "list_all foreign_layer (layers (kmap (removeLayerCollection v)))"
    using assms tracked_remainder[of "map snd (kit_layerIds v)" "layers (kmap v)"]
    by (simp add: well_tracked_kit_def)
  show "sources (kmap (removeLayerCollection v)) = sources (kmap v)"
    using remove_tracked_layers[of "kmap v" "map snd (kit_layerIds v)"]
    by (simp add: removeLayerCollection_def)
  show "kit_layerIds (removeLayerCollection v) = []"
    by (simp add: removeLayerCollection_def)
qed

lemma addVectorSource_foreign:
  assumes "list_all foreign_layer (layers m)"
  shows "addVectorSource m i t a =
           Inr (m\<lparr>sources := filter (\<lambda>p. fst p \<noteq> i) (sources m) @ [(i, \<lparr>source_url = t, attribution = a\<rparr>)]\<rparr>)"
proof -
  have nouse: "\<not> list_ex (\<lambda>l. layer_source l = Some i) (layers m)"
    using assms by (rule foreign_no_source)
  show ?thesis
  proof (cases "getSource m i")
    case None
    then have "filter (\<lambda>p. fst p \<noteq> i) (sources m) = sources m"
      by (auto simp: getSource_def map_of_eq_None_iff filter_id_conv)
    then show ?thesis using None by (simp add: addVectorSource_def addSource_def)
  next
    case (Some s)
    then show ?thesis
      using nouse getSource_removed[OF nouse]
      by (simp add: addVectorSource_def addSource_def removeSource_def)
  qed
qed

lemma installBasemap_kit_result:
  assumes "well_tracked_kit v"
  shows "snd (installBasemap_kit uni getKey b probe metadata v) =
           Inr (snd (snd (resolvePMTiles getKey b (case b of Some _ \<Rightarrow> offlineSourceUrlRef v | None \<Rightarrow> None)
                            probe (pmtiles_module v)))) \<and>
         (\<exists>kept. list_all foreign_layer kept \<and>
            map binding (layers (kmap (fst (installBasemap_kit uni getKey b probe metadata v)))) =
              map binding kept @
              concat (map (\<lambda>d. role_binding uni ''basemap-'' ''basemap'' (names_of metadata) (k_key d, k_matches d))
                        LAYERS)) \<and>
         kit_layerIds (fst (installBasemap_kit uni getKey b probe metadata v)) =
           concat (map (\<lambda>d. role_id uni ''basemap-'' (names_of metadata) (k_key d, k_matches d)) LAYERS)"
proof -
  obtain modl pm info where res:
    "resolvePMTiles getKey b (case b of Some _ \<Rightarrow> offlineSourceUrlRef v | None \<Rightarrow> None)
       probe (pmtiles_module v) = (modl, pm, info)"
    by (cases "resolvePMTiles getKey b (case b of Some _ \<Rightarrow> offlineSourceUrlRef v | None \<Rightarrow> None)
       probe (pmtiles_module v)") auto
  define v1 where "v1 = removeLayerCollection (v\<lparr>pmtiles_module := modl\<rparr>)"
  define att where "att = copyright_sign @ '' OpenStreetMap, '' @ copyright_sign @ '' Protomaps''"
  define m where "m = (kmap v1)\<lparr>sources := filter (\<lambda>p. fst p \<noteq> SOURCE_ID) (sources (kmap v1)) @
                         [(SOURCE_ID, \<lparr>source_url = tileUrl info, attribution = att\<rparr>)]\<rparr>"
  have wt: "well_tracked_kit (v\<lparr>pmtiles_module := modl\<rparr>)"
    using assms by (simp add: well_tracked_kit_def)
  have rl: "list_all foreign_layer (layers (kmap v1))" "kit_layerIds v1 = []"
    using removeLayerCollection_result(1,3)[OF wt] by (simp_all add: v1_def)
  have add: "addVectorSource (kmap v1) SOURCE_ID (tileUrl info) att = Inr m"
    using addVectorSource_foreign[OF rl(1)] by (simp add: m_def)
  have foreign: "list_all foreign_layer (layers m)"
    using rl(1) by (simp add: m_def)
  have run: "installBasemap_kit uni getKey b probe metadata v =
               (case metadata of
                  Rejected e \<Rightarrow> (v1\<lparr>kmap := m\<rparr>, Inr info)
                | Resolved md \<Rightarrow> (foldl (kit_role uni (names_of metadata)) (v1\<lparr>kmap := m\<rparr>) LAYERS, Inr info))"
    using res add unfolding v1_def att_def names_of_def installBasemap_kit_def
    by (auto simp: Let_def split: settled.splits option.splits)
  have f1: "\<forall>d\<in>set LAYERS. ''basemap-'' @ k_key d \<notin> fst ` set (map binding (layers (kmap (v1\<lparr>kmap := m\<rparr>))))"
    using foreign_not_role(2)[OF foreign, of "''basemap-''"] by simp
  have f2: "\<forall>d\<in>set LAYERS. k_key d \<notin> fst ` set (kit_layerIds (v1\<lparr>kmap := m\<rparr>))"
    using rl(2) by simp
  note fold = kit_roles[OF kit_layers_distinct f1 f2 kit_layers_lowercase kit_layers_build,
      where names = "names_of metadata" and uni = uni]
  show ?thesis
  proof (cases metadata)
    case (Rejected e)
    then show ?thesis
      unfolding run res using foreign rl(2)
      by (auto simp: names_of_def role_empty_names)
  next
    case (Resolved md)
    then show ?thesis
      unfolding run res using foreign rl(2) fold by auto
  qed
qed

subsection \<open>One layer per role\<close>

lemma filter_binding:
  "map binding (filter (\<lambda>l. layer_id l = i) ls) = filter (\<lambda>b. fst b = i) (map binding ls)"
  by (induction ls) (simp_all add: binding_def)

lemma role_of_rebuild:
  assumes "list_all foreign_layer kept" and "\<not> startsWith ''background'' pre"
    and "map binding ls = map binding kept @ concat (map (\<lambda>d. role_binding uni pre sid names (f d)) ds)"
    and "distinct (map (fst \<circ> f) ds)" and "d \<in> set ds"
  shows "map binding (filter (\<lambda>l. layer_id l = pre @ fst (f d)) ls) = role_binding uni pre sid names (f d)"
proof -
  have "concat (map (\<lambda>d. role_binding uni pre sid names (f d)) ds) =
          concat (map (role_binding uni pre sid names) (map f ds))"
    by (simp add: comp_def)
  moreover have "filter (\<lambda>b. fst b = pre @ fst (f d)) (concat (map (role_binding uni pre sid names) (map f ds))) =
          role_binding uni pre sid names (f d)"
    using role_filter[where ds = "map f ds" and d = "f d" and pre = pre and sid = sid and names = names and uni = uni] assms(4,5) by simp
  ultimately show ?thesis
    using foreign_not_role(1)[OF assms(1,2), of "fst (f d)"] assms(3)
    by (simp add: filter_binding)
qed

lemma id_of_rebuild:
  assumes "distinct (map (fst \<circ> f) ds)" and "d \<in> set ds"
  shows "map_of (concat (map (\<lambda>d. role_id uni pre names (f d)) ds)) (fst (f d)) =
           map_option (\<lambda>s. pre @ fst (f d)) (first_match uni (snd (f d)) names)"
proof -
  have "concat (map (\<lambda>d. role_id uni pre names (f d)) ds) = concat (map (role_id uni pre names) (map f ds))"
    by (simp add: comp_def)
  then show ?thesis
    using role_id_lookup[where ds = "map f ds" and d = "f d" and pre = pre and names = names and uni = uni] assms by simp
qed

lemma themed_role:
  assumes "well_tracked v" and "src \<noteq> []"
    and "\<not> (sourceUrlRef v = Some src \<and> getSource (vmap v) ''pm'' \<noteq> None)"
    and "d \<in> set LAYER_DESCRIPTORS"
  shows "snd (installBasemap uni src metadata v) = None"
    and "map binding (filter (\<lambda>l. layer_id l = ''pm-'' @ d_key d)
                       (layers (vmap (fst (installBasemap uni src metadata v))))) =
           role_binding uni ''pm-'' ''pm'' (names_of metadata) (d_key d, d_matches d)"
    and "map_of (layerIdsRef (fst (installBasemap uni src metadata v))) (d_key d) =
           map_option (\<lambda>s. ''pm-'' @ d_key d) (first_match uni (d_matches d) (names_of metadata))"
proof -
  note rb = installBasemap_rebuild[OF assms(1,2,3), where metadata = metadata and uni = uni]
  show "snd (installBasemap uni src metadata v) = None" using rb by simp
  obtain kept where kept: "list_all foreign_layer kept"
    "map binding (layers (vmap (fst (installBasemap uni src metadata v)))) =
       map binding kept @
       concat (map (\<lambda>d. role_binding uni ''pm-'' ''pm'' (names_of metadata) (d_key d, d_matches d))
                 LAYER_DESCRIPTORS)"
    using rb by blast
  have dist: "distinct (map (fst \<circ> (\<lambda>d. (d_key d, d_matches d))) LAYER_DESCRIPTORS)"
    using descriptors_distinct by (simp add: comp_def)
  show "map binding (filter (\<lambda>l. layer_id l = ''pm-'' @ d_key d)
                       (layers (vmap (fst (installBasemap uni src metadata v))))) =
           role_binding uni ''pm-'' ''pm'' (names_of metadata) (d_key d, d_matches d)"
    using role_of_rebuild[OF kept(1) _ kept(2) dist assms(4)] by simp
  show "map_of (layerIdsRef (fst (installBasemap uni src metadata v))) (d_key d) =
           map_option (\<lambda>s. ''pm-'' @ d_key d) (first_match uni (d_matches d) (names_of metadata))"
    using id_of_rebuild[OF dist assms(4), where pre = "''pm-''" and names = "names_of metadata" and uni = uni] rb by simp
qed

lemma kit_role_result:
  assumes "well_tracked_kit v" and "d \<in> set LAYERS"
  shows "\<exists>info. snd (installBasemap_kit uni getKey b probe metadata v) = Inr info"
    and "map binding (filter (\<lambda>l. layer_id l = ''basemap-'' @ k_key d)
                       (layers (kmap (fst (installBasemap_kit uni getKey b probe metadata v))))) =
           role_binding uni ''basemap-'' ''basemap'' (names_of metadata) (k_key d, k_matches d)"
    and "map_of (kit_layerIds (fst (installBasemap_kit uni getKey b probe metadata v))) (k_key d) =
           map_option (\<lambda>s. ''basemap-'' @ k_key d) (first_match uni (k_matches d) (names_of metadata))"
proof -
  note rb = installBasemap_kit_result[OF assms(1), where getKey = getKey and b = b and probe = probe and metadata = metadata and uni = uni]
  show "\<exists>info. snd (installBasemap_kit uni getKey b probe metadata v) = Inr info" using rb by simp
  obtain kept where kept: "list_all foreign_layer kept"
    "map binding (layers (kmap (fst (installBasemap_kit uni getKey b probe metadata v)))) =
       map binding kept @
       concat (map (\<lambda>d. role_binding uni ''basemap-'' ''basemap'' (names_of metadata) (k_key d, k_matches d))
                 LAYERS)"
    using rb by blast
  have dist: "distinct (map (fst \<circ> (\<lambda>d. (k_key d, k_matches d))) LAYERS)"
    using kit_layers_distinct by (simp add: comp_def)
  show "map binding (filter (\<lambda>l. layer_id l = ''basemap-'' @ k_key d)
                       (layers (kmap (fst (installBasemap_kit uni getKey b probe metadata v))))) =
           role_binding uni ''basemap-'' ''basemap'' (names_of metadata) (k_key d, k_matches d)"
    using role_of_rebuild[OF kept(1) _ kept(2) dist assms(2)] by simp
  show "map_of (kit_layerIds (fst (installBasemap_kit uni getKey b probe metadata v))) (k_key d) =
           map_option (\<lambda>s. ''basemap-'' @ k_key d) (first_match uni (k_matches d) (names_of metadata))"
    using id_of_rebuild[OF dist assms(2), where pre = "''basemap-''" and names = "names_of metadata" and uni = uni] rb by simp
qed

lemma waterway_found: "''waterway'' \<in> set names \<Longrightarrow> first_match uni [''water''] names \<noteq> None"
  using waterway_matches by (auto simp: first_match_def find_None_iff)

lemma initial_views_tracked:
  "well_tracked initial_view" "well_tracked_kit (initial_kit_view provenance)"
  by (simp_all add: well_tracked_def well_tracked_kit_def initial_view_def initial_kit_view_def
        initial_map_def foreign_layer_def)

lemma water_roles:
  "hd (tl LAYER_DESCRIPTORS) \<in> set LAYER_DESCRIPTORS"
  "d_key (hd (tl LAYER_DESCRIPTORS)) = ''water''" "d_matches (hd (tl LAYER_DESCRIPTORS)) = [''water'']"
  "hd (tl LAYERS) \<in> set LAYERS"
  "k_key (hd (tl LAYERS)) = ''water''" "k_matches (hd (tl LAYERS)) = [''water'']"
  by (simp_all add: LAYER_DESCRIPTORS_def LAYERS_def)

lemma sample_first_match:
  "first_match uni [''water''] [''roads'', ''waterway'', ''water''] = Some ''waterway''"
  by (simp add: first_match_def caseless_def is_ascii_def same_letter_def letter_pairs_def)

lemma mixed_case_names:
  "first_match sample_uni [''water''] mixed_names = Some ''WaterWay''"
  "first_match sample_uni [''land'', ''earth'', ''park'', ''landuse'', ''landcover''] mixed_names =
     Some park_name"
  "first_match sample_uni [''land'', ''earth'', ''park''] mixed_names = Some park_name"
  "first_match sample_uni [''building''] mixed_names = None"
  by (simp_all add: first_match_def caseless_def is_ascii_def same_letter_def letter_pairs_def
        lower_form_def lower_letter_def sample_uni_def park_name_def mixed_names_def)

lemma other_roles:
  "hd LAYER_DESCRIPTORS \<in> set LAYER_DESCRIPTORS"
  "d_key (hd LAYER_DESCRIPTORS) = ''land''"
  "d_matches (hd LAYER_DESCRIPTORS) = [''land'', ''earth'', ''park'', ''landuse'', ''landcover'']"
  "LAYER_DESCRIPTORS ! 3 \<in> set LAYER_DESCRIPTORS"
  "d_key (LAYER_DESCRIPTORS ! 3) = ''buildings''"
  "d_matches (LAYER_DESCRIPTORS ! 3) = [''building'']"
  "hd LAYERS \<in> set LAYERS"
  "k_key (hd LAYERS) = ''land''" "k_matches (hd LAYERS) = [''land'', ''earth'', ''park'']"
  by (simp_all add: LAYER_DESCRIPTORS_def LAYERS_def)

lemma kit_first_install:
  "installBasemap_kit sample_uni sample_getKey None (Resolved (sample_response 200 None))
      (Resolved (Some [''waterway''])) (initial_kit_view None) =
   (\<lparr>kmap =
       \<lparr>sources =
          [(''basemap'',
            \<lparr>source_url = ''pmtiles:///tiles/basemap.pmtiles'',
              attribution = copyright_sign @ '' OpenStreetMap, '' @ copyright_sign @ '' Protomaps''\<rparr>)],
        layers =
          [\<lparr>layer_id = ''background'', layer_type = ''background'', layer_source = None,
             source_layer = None, paint = [(''background-color'', SStr ''#091221'')], layout = [],
             minzoom = None, maxzoom = None\<rparr>,
           \<lparr>layer_id = ''basemap-water'', layer_type = ''fill'', layer_source = Some ''basemap'',
             source_layer = Some ''waterway'',
             paint = [(''fill-color'', SStr ''#2f8edb''), (''fill-opacity'', SNum 6 1)],
             layout = [], minzoom = None, maxzoom = None\<rparr>]\<rparr>,
      kit_layerIds = [(''water'', ''basemap-water'')], offlineSourceUrlRef = None,
      pmtiles_module =
        \<lparr>protocolInstance = Some [PMTiles (UrlSource ''/tiles/basemap.pmtiles'')],
          protocolRegistered = True, maplibre_protocols = [''pmtiles'']\<rparr>\<rparr>,
    Inr \<lparr>info_sourceUrl = ''/tiles/basemap.pmtiles'', tileUrl = ''pmtiles:///tiles/basemap.pmtiles'',
          usedLocal = True, usedOfflineCache = False\<rparr>)"
  by (simp add: installBasemap_kit_def resolvePMTiles_def Let_def ensureProtocol_def protocol_add_def
      initial_kit_view_def initial_module_def initial_map_def hasLocalPMTiles_def response_ok_def
      sample_response_def sample_getKey_def tile_handle_def removeLayerCollection_def
      addVectorSource_def addSource_def getSource_def removeSource_def SOURCE_ID_def
      LOCAL_PM_TILES_PATH_def LAYERS_def kit_role_def kit_layer_def find_source_layer_def
      toLowerCase_def is_ascii_def lower_char_def getLayer_def removeLayer_def addLayer_def
      copyright_sign_def)

text \<open>
  C6, as stated, fails for the renderer of the kit, which never compares the new source
  with the bound one. Installed twice over the same bundled archive, it removes the
  tracked layers and replaces the source each time; when the second metadata read fails,
  the water layer of the first install is gone.
\<close>

theorem kit_reinstall_loses_layers:
  "snd (installBasemap_kit sample_uni sample_getKey None (Resolved (sample_response 200 None)) (Rejected net_error)
          (fst (installBasemap_kit sample_uni sample_getKey None (Resolved (sample_response 200 None))
                  (Resolved (Some [''waterway''])) (initial_kit_view None)))) =
     snd (installBasemap_kit sample_uni sample_getKey None (Resolved (sample_response 200 None))
            (Resolved (Some [''waterway''])) (initial_kit_view None)) \<and>
   kit_layerIds (fst (installBasemap_kit sample_uni sample_getKey None (Resolved (sample_response 200 None))
                        (Resolved (Some [''waterway''])) (initial_kit_view None))) =
     [(''water'', ''basemap-water'')] \<and>
   map layer_id (layers (kmap (fst (installBasemap_kit sample_uni sample_getKey None (Resolved (sample_response 200 None))
                        (Resolved (Some [''waterway''])) (initial_kit_view None))))) =
     [''background'', ''basemap-water''] \<and>
   kit_layerIds (fst (installBasemap_kit sample_uni sample_getKey None (Resolved (sample_response 200 None))
          (Rejected net_error)
          (fst (installBasemap_kit sample_uni sample_getKey None (Resolved (sample_response 200 None))
                  (Resolved (Some [''waterway''])) (initial_kit_view None))))) = [] \<and>
   map layer_id (layers (kmap (fst (installBasemap_kit sample_uni sample_getKey None (Resolved (sample_response 200 None))
          (Rejected net_error)
          (fst (installBasemap_kit sample_uni sample_getKey None (Resolved (sample_response 200 None))
                  (Resolved (Some [''waterway''])) (initial_kit_view None))))))) = [''background'']"
  unfolding kit_first_install
  by (simp add: installBasemap_kit_def resolvePMTiles_def Let_def ensureProtocol_def protocol_add_def
      hasLocalPMTiles_def response_ok_def
      sample_response_def sample_getKey_def tile_handle_def removeLayerCollection_def
      addVectorSource_def addSource_def getSource_def removeSource_def SOURCE_ID_def
      LOCAL_PM_TILES_PATH_def getLayer_def removeLayer_def copyright_sign_def)

text \<open>
  C6, amended, for the themed renderer (src/components/MapView.tsx). When
  \<open>installBasemap\<close> is called with the source recorded in \<open>sourceUrlRef\<close> while the map
  has its \<open>pm\<close> source, it throws nothing and does what \<open>applyTheme\<close> does: the sources,
  the layers in their order with their ids and bindings, and the tracked layer ids are
  as before; only paint and layout properties are set again.
\<close>

theorem same_source_only_restyles:
  assumes "sourceUrlRef v = Some src" and "getSource (vmap v) ''pm'' \<noteq> None"
  shows "let res = installBasemap uni src metadata v
         in snd res = None \<and>
            fst res = (if src = [] then v else applyTheme v) \<and>
            sources (vmap (fst res)) = sources (vmap v) \<and>
            map bare (layers (vmap (fst res))) = map bare (layers (vmap v)) \<and>
            map layer_id (layers (vmap (fst res))) = map layer_id (layers (vmap v)) \<and>
            layerIdsRef (fst res) = layerIdsRef v \<and>
            sourceUrlRef (fst res) = sourceUrlRef v"
proof -
  have "layerIdsRef (applyTheme v) = layerIdsRef v" "sourceUrlRef (applyTheme v) = sourceUrlRef v"
    by (simp_all add: applyTheme_def Let_def)
  then show ?thesis
    using assms applyTheme_bare(1,2)[of v] ids_of_bare[OF applyTheme_bare(1)[of v]]
    by (simp add: installBasemap_def Let_def)
qed

theorem same_source_only_restyles_witness:
  "let v1 = fst (installBasemap sample_uni sample_url (Resolved (Some [''roads'', ''waterway'', ''water''])) initial_view);
       res = installBasemap sample_uni sample_url (Rejected net_error) v1
   in sourceUrlRef v1 = Some sample_url \<and>
      map_of (layerIdsRef v1) ''water'' = Some ''pm-water'' \<and>
      snd res = None \<and>
      sources (vmap (fst res)) = sources (vmap v1) \<and>
      map layer_id (layers (vmap (fst res))) = map layer_id (layers (vmap v1)) \<and>
      layerIdsRef (fst res) = layerIdsRef v1"
proof -
  define v1 where "v1 = fst (installBasemap sample_uni sample_url (Resolved (Some [''roads'', ''waterway'', ''water''])) initial_view)"
  have url: "sample_url \<noteq> []" by (simp add: sample_url_def)
  have unbound: "\<not> (sourceUrlRef initial_view = Some sample_url \<and> getSource (vmap initial_view) ''pm'' \<noteq> None)"
    by (simp add: initial_view_def)
  note rb = installBasemap_rebuild[OF initial_views_tracked(1) url unbound,
      where metadata = "Resolved (Some [''roads'', ''waterway'', ''water''])" and uni = sample_uni]
  have a1: "sourceUrlRef v1 = Some sample_url" and a2: "getSource (vmap v1) ''pm'' \<noteq> None"
    using rb by (simp_all add: v1_def)
  have w: "map_of (layerIdsRef v1) ''water'' = Some ''pm-water''"
    using themed_role(3)[OF initial_views_tracked(1) url unbound water_roles(1),
        where metadata = "Resolved (Some [''roads'', ''waterway'', ''water''])" and uni = sample_uni]
    by (simp add: v1_def water_roles names_of_def sample_first_match)
  have "let res = installBasemap sample_uni sample_url (Rejected net_error) v1
        in snd res = None \<and>
           fst res = (if sample_url = [] then v1 else applyTheme v1) \<and>
           sources (vmap (fst res)) = sources (vmap v1) \<and>
           map bare (layers (vmap (fst res))) = map bare (layers (vmap v1)) \<and>
           map layer_id (layers (vmap (fst res))) = map layer_id (layers (vmap v1)) \<and>
           layerIdsRef (fst res) = layerIdsRef v1 \<and>
           sourceUrlRef (fst res) = sourceUrlRef v1"
    by (rule same_source_only_restyles[OF a1 a2])
  then show ?thesis
    unfolding Let_def v1_def[symmetric] using a1 w by blast
qed

text \<open>
  C7. A rebuild by either renderer, from a map whose layers are all tracked, throws
  nothing and leaves, for each role, no layer when no name in the metadata contains one
  of the role's keywords without regard to case, and otherwise exactly one layer, bound
  to the renderer's source and to the first such name; the role's tracked id follows.
  This holds whatever the case mapping \<open>uni\<close> of the engine is. Metadata that cannot be
  read counts as an empty list of names. If the names include \<open>waterway\<close>, there is
  exactly one water layer.
\<close>

theorem one_layer_per_role:
  assumes "well_tracked v" and "src \<noteq> []"
    and "\<not> (sourceUrlRef v = Some src \<and> getSource (vmap v) ''pm'' \<noteq> None)"
    and "d \<in> set LAYER_DESCRIPTORS"
    and "well_tracked_kit kv" and "k \<in> set LAYERS"
  shows "let names = names_of metadata;
             res = installBasemap uni src metadata v;
             kres = installBasemap_kit uni getKey b probe metadata kv
         in snd res = None \<and>
            map binding (filter (\<lambda>l. layer_id l = ''pm-'' @ d_key d) (layers (vmap (fst res)))) =
              (case first_match uni (d_matches d) names of
                 None \<Rightarrow> []
               | Some s \<Rightarrow> [(''pm-'' @ d_key d, Some ''pm'', Some s)]) \<and>
            map_of (layerIdsRef (fst res)) (d_key d) =
              (case first_match uni (d_matches d) names of
                 None \<Rightarrow> None
               | Some s \<Rightarrow> Some (''pm-'' @ d_key d)) \<and>
            (\<exists>info. snd kres = Inr info) \<and>
            map binding (filter (\<lambda>l. layer_id l = ''basemap-'' @ k_key k) (layers (kmap (fst kres)))) =
              (case first_match uni (k_matches k) names of
                 None \<Rightarrow> []
               | Some s \<Rightarrow> [(''basemap-'' @ k_key k, Some ''basemap'', Some s)]) \<and>
            map_of (kit_layerIds (fst kres)) (k_key k) =
              (case first_match uni (k_matches k) names of
                 None \<Rightarrow> None
               | Some s \<Rightarrow> Some (''basemap-'' @ k_key k)) \<and>
            (''waterway'' \<in> set names \<longrightarrow>
               length (filter (\<lambda>l. layer_id l = ''pm-water'') (layers (vmap (fst res)))) = 1 \<and>
               length (filter (\<lambda>l. layer_id l = ''basemap-water'') (layers (kmap (fst kres)))) = 1)"
proof -
  note t = themed_role[OF assms(1,2,3), where metadata = metadata and uni = uni]
  note kt = kit_role_result[OF assms(5), where getKey = getKey and b = b and probe = probe
      and metadata = metadata and uni = uni]
  have water: "length (filter (\<lambda>l. layer_id l = ''pm-water'')
                  (layers (vmap (fst (installBasemap uni src metadata v))))) = 1 \<and>
               length (filter (\<lambda>l. layer_id l = ''basemap-water'')
                  (layers (kmap (fst (installBasemap_kit uni getKey b probe metadata kv))))) = 1"
    if w: "''waterway'' \<in> set (names_of metadata)"
  proof -
    obtain s where s: "first_match uni [''water''] (names_of metadata) = Some s"
      using waterway_found[OF w] by auto
    have "map binding (filter (\<lambda>l. layer_id l = ''pm-water'')
            (layers (vmap (fst (installBasemap uni src metadata v))))) = [(''pm-water'', Some ''pm'', Some s)]"
      using t(2)[OF water_roles(1)] s by (simp add: water_roles role_binding_def)
    moreover have "map binding (filter (\<lambda>l. layer_id l = ''basemap-water'')
            (layers (kmap (fst (installBasemap_kit uni getKey b probe metadata kv))))) =
          [(''basemap-water'', Some ''basemap'', Some s)]"
      using kt(2)[OF water_roles(4)] s by (simp add: water_roles role_binding_def)
    ultimately have "length (map binding (filter (\<lambda>l. layer_id l = ''pm-water'')
            (layers (vmap (fst (installBasemap uni src metadata v)))))) = 1"
      and "length (map binding (filter (\<lambda>l. layer_id l = ''basemap-water'')
            (layers (kmap (fst (installBasemap_kit uni getKey b probe metadata kv)))))) = 1"
      by simp_all
    then show ?thesis by simp
  qed
  have c1: "snd (installBasemap uni src metadata v) = None"
    using t(1)[OF assms(4)] .
  have c2: "map binding (filter (\<lambda>l. layer_id l = ''pm-'' @ d_key d)
              (layers (vmap (fst (installBasemap uni src metadata v))))) =
            (case first_match uni (d_matches d) (names_of metadata) of
               None \<Rightarrow> []
             | Some s \<Rightarrow> [(''pm-'' @ d_key d, Some ''pm'', Some s)])"
    using t(2)[OF assms(4)]
    by (cases "first_match uni (d_matches d) (names_of metadata)") (simp_all add: role_binding_def)
  have c3: "map_of (layerIdsRef (fst (installBasemap uni src metadata v))) (d_key d) =
            (case first_match uni (d_matches d) (names_of metadata) of
               None \<Rightarrow> None
             | Some s \<Rightarrow> Some (''pm-'' @ d_key d))"
    using t(3)[OF assms(4)]
    by (cases "first_match uni (d_matches d) (names_of metadata)") simp_all
  have c4: "\<exists>info. snd (installBasemap_kit uni getKey b probe metadata kv) = Inr info"
    using kt(1)[OF assms(6)] .
  have c5: "map binding (filter (\<lambda>l. layer_id l = ''basemap-'' @ k_key k)
              (layers (kmap (fst (installBasemap_kit uni getKey b probe metadata kv))))) =
            (case first_match uni (k_matches k) (names_of metadata) of
               None \<Rightarrow> []
             | Some s \<Rightarrow> [(''basemap-'' @ k_key k, Some ''basemap'', Some s)])"
    using kt(2)[OF assms(6)]
    by (cases "first_match uni (k_matches k) (names_of metadata)") (simp_all add: role_binding_def)
  have c6: "map_of (kit_layerIds (fst (installBasemap_kit uni getKey b probe metadata kv))) (k_key k) =
            (case first_match uni (k_matches k) (names_of metadata) of
               None \<Rightarrow> None
             | Some s \<Rightarrow> Some (''basemap-'' @ k_key k))"
    using kt(3)[OF assms(6)]
    by (cases "first_match uni (k_matches k) (names_of metadata)") simp_all
  show ?thesis
    unfolding Let_def using c1 c2 c3 c4 c5 c6 water by simp
qed

theorem one_layer_per_role_witness:
  "snd (installBasemap sample_uni sample_url (Resolved (Some mixed_names)) initial_view) = None \<and>
   map binding (filter (\<lambda>l. layer_id l = ''pm-water'')
     (layers (vmap (fst (installBasemap sample_uni sample_url (Resolved (Some mixed_names))
                           initial_view))))) =
     [(''pm-water'', Some ''pm'', Some ''WaterWay'')] \<and>
   map binding (filter (\<lambda>l. layer_id l = ''pm-land'')
     (layers (vmap (fst (installBasemap sample_uni sample_url (Resolved (Some mixed_names))
                           initial_view))))) =
     [(''pm-land'', Some ''pm'', Some park_name)] \<and>
   map binding (filter (\<lambda>l. layer_id l = ''pm-buildings'')
     (layers (vmap (fst (installBasemap sample_uni sample_url (Resolved (Some mixed_names))
                           initial_view))))) = [] \<and>
   map_of (layerIdsRef (fst (installBasemap sample_uni sample_url (Resolved (Some mixed_names))
                               initial_view))) ''buildings'' = None \<and>
   map binding (filter (\<lambda>l. layer_id l = ''basemap-water'')
     (layers (kmap (fst (installBasemap_kit sample_uni sample_getKey None
                           (Resolved (sample_response 200 None))
                           (Resolved (Some mixed_names)) (initial_kit_view None)))))) =
     [(''basemap-water'', Some ''basemap'', Some ''WaterWay'')] \<and>
   map binding (filter (\<lambda>l. layer_id l = ''basemap-land'')
     (layers (kmap (fst (installBasemap_kit sample_uni sample_getKey None
                           (Resolved (sample_response 200 None))
                           (Resolved (Some mixed_names)) (initial_kit_view None)))))) =
     [(''basemap-land'', Some ''basemap'', Some park_name)] \<and>
   length (filter (\<lambda>l. layer_id l = ''pm-water'')
     (layers (vmap (fst (installBasemap sample_uni sample_url
                           (Resolved (Some [''roads'', ''waterway'', ''water''])) initial_view))))) = 1"
proof -
  have url: "sample_url \<noteq> []" by (simp add: sample_url_def)
  have unbound: "\<not> (sourceUrlRef initial_view = Some sample_url \<and> getSource (vmap initial_view) ''pm'' \<noteq> None)"
    by (simp add: initial_view_def)
  show ?thesis
    using one_layer_per_role[OF initial_views_tracked(1) url unbound water_roles(1)
        initial_views_tracked(2) water_roles(4),
        where metadata = "Resolved (Some mixed_names)" and uni = sample_uni
          and getKey = sample_getKey and b = None
          and probe = "Resolved (sample_response 200 None)" and provenance1 = None]
      one_layer_per_role[OF initial_views_tracked(1) url unbound other_roles(1)
        initial_views_tracked(2) other_roles(7),
        where metadata = "Resolved (Some mixed_names)" and uni = sample_uni
          and getKey = sample_getKey and b = None
          and probe = "Resolved (sample_response 200 None)" and provenance1 = None]
      one_layer_per_role[OF initial_views_tracked(1) url unbound other_roles(4)
        initial_views_tracked(2) other_roles(7),
        where metadata = "Resolved (Some mixed_names)" and uni = sample_uni
          and getKey = sample_getKey and b = None
          and probe = "Resolved (sample_response 200 None)" and provenance1 = None]
      one_layer_per_role[OF initial_views_tracked(1) url unbound water_roles(1)
        initial_views_tracked(2) water_roles(4),
        where metadata = "Resolved (Some [''roads'', ''waterway'', ''water''])" and uni = sample_uni
          and getKey = sample_getKey and b = None
          and probe = "Resolved (sample_response 200 None)" and provenance1 = None]
    by (simp add: Let_def water_roles other_roles names_of_def sample_first_match mixed_case_names)
qed

end
